theory Spec2Isabelle
  imports Main "HOL-Library.Word"
begin

unbundle bit_operations_syntax

section \<open>Byte buffers\<close>

text \<open>
  A Node.js \<open>Buffer\<close> is a list of bytes. Reads and writes outside the buffer, and
  writes of a value outside the range of the field, throw a \<open>RangeError\<close>; reading a
  property of \<open>undefined\<close> throws a \<open>TypeError\<close>; \<open>CollaboratorError\<close> stands for
  whatever the schema collaborator or a listener's callback throws. An exception of a
  function without state is the left injection of a sum.
\<close>

type_synonym byte = "8 word"
type_synonym Buffer = "byte list"

datatype error = RangeError | TypeError | CollaboratorError

definition bindE :: "error + 'a \<Rightarrow> ('a \<Rightarrow> error + 'b) \<Rightarrow> error + 'b" where
  "bindE m f = (case m of Inl e \<Rightarrow> Inl e | Inr x \<Rightarrow> f x)"

text \<open>\<open>Buffer.alloc(n)\<close>: \<open>n\<close> zero bytes.\<close>

definition alloc :: "nat \<Rightarrow> Buffer" where
  "alloc n = replicate n 0"

text \<open>\<open>buf.slice(start, end)\<close> and \<open>buf.slice(start)\<close>: both ends are clamped to the buffer.\<close>

definition slice :: "Buffer \<Rightarrow> nat \<Rightarrow> nat \<Rightarrow> Buffer" where
  "slice buf start end = take (end - start) (drop start buf)"

definition sliceFrom :: "Buffer \<Rightarrow> nat \<Rightarrow> Buffer" where
  "sliceFrom buf start = drop start buf"

text \<open>
  \<open>src.copy(target, targetStart)\<close>: nothing is copied when \<open>targetStart\<close> is at or after
  the end of the target, and the copy stops at the end of the target.
\<close>

definition copy :: "Buffer \<Rightarrow> Buffer \<Rightarrow> nat \<Rightarrow> Buffer" where
  "copy src target targetStart =
     (if targetStart \<ge> length target then target
      else take (length target)
             (take targetStart target @ src @ drop (targetStart + length src) target))"

definition readUInt8 :: "Buffer \<Rightarrow> nat \<Rightarrow> error + nat" where
  "readUInt8 buf offset =
     (if offset + 1 \<le> length buf then Inr (unat (buf ! offset)) else Inl RangeError)"

definition readUInt16LE :: "Buffer \<Rightarrow> nat \<Rightarrow> error + nat" where
  "readUInt16LE buf offset =
     (if offset + 2 \<le> length buf
      then Inr (unat (buf ! offset) + 256 * unat (buf ! (offset + 1)))
      else Inl RangeError)"

definition readUInt32LE :: "Buffer \<Rightarrow> nat \<Rightarrow> error + nat" where
  "readUInt32LE buf offset =
     (if offset + 4 \<le> length buf
      then Inr (unat (buf ! offset) + 256 * unat (buf ! (offset + 1))
                + 65536 * unat (buf ! (offset + 2)) + 16777216 * unat (buf ! (offset + 3)))
      else Inl RangeError)"

definition writeUInt8 :: "Buffer \<Rightarrow> nat \<Rightarrow> nat \<Rightarrow> error + Buffer" where
  "writeUInt8 buf v offset =
     (if v > 255 \<or> offset + 1 > length buf then Inl RangeError
      else Inr (buf[offset := word_of_nat v]))"

definition writeUInt16LE :: "Buffer \<Rightarrow> nat \<Rightarrow> nat \<Rightarrow> error + Buffer" where
  "writeUInt16LE buf v offset =
     (if v > 65535 \<or> offset + 2 > length buf then Inl RangeError
      else Inr (buf[offset := word_of_nat (v mod 256),
                    offset + 1 := word_of_nat (v div 256)]))"

definition writeUInt32LE :: "Buffer \<Rightarrow> nat \<Rightarrow> nat \<Rightarrow> error + Buffer" where
  "writeUInt32LE buf v offset =
     (if v > 4294967295 \<or> offset + 4 > length buf then Inl RangeError
      else Inr (buf[offset := word_of_nat (v mod 256),
                    offset + 1 := word_of_nat (v div 256 mod 256),
                    offset + 2 := word_of_nat (v div 65536 mod 256),
                    offset + 3 := word_of_nat (v div 16777216)]))"

section \<open>Data model (types.ts)\<close>

text \<open>
  The fields \<open>rawData\<close> of \<open>PacketHeader\<close> and of \<open>PacketData\<close> are \<open>headerRawData\<close> and
  \<open>payloadRawData\<close> here, the field \<open>type\<close> of the header is \<open>msgType\<close>. The numbers of the
  header are naturals, except \<open>payloadLength\<close>, which the receiver computes by a
  subtraction that can go below zero. The field \<open>parsed\<close> of \<open>PacketData\<close> is always the
  empty object and is left out.
\<close>

record PacketHeader =
  headerRawData :: Buffer
  identity :: Buffer
  msgType :: nat
  index :: nat
  subIndex :: nat
  variableCount :: nat
  packetLength :: nat
  counter :: nat
  flags :: nat
  flagsStr :: "string list"
  checksum :: nat
  payloadLength :: int

record PacketData =
  payloadRawData :: Buffer

record Packet =
  header :: PacketHeader
  payload :: PacketData
  rawData :: Buffer

section \<open>Header codec\<close>

text \<open>\<open>Receiver.parseHeaderFlags\<close>\<close>

definition parseHeaderFlags :: "nat \<Rightarrow> string list" where
  "parseHeaderFlags fl =
     (if fl AND 1 = 1 then [''SendAckRequested''] else [])
     @ (if fl AND 2 = 2 then [''ChecksumIncluded''] else [])
     @ (if fl AND 4 = 4 then [''InvalidChecksum''] else [])"

text \<open>
  \<open>Receiver.parseReceivedPacketHeader\<close>. The branch for a datagram shorter than 20
  bytes is empty in the source, so the reads below run on any datagram. The position
  \<open>pos\<close> of the source is 0, 4, 8, 10, 12, 14, 16, 18, 19 at the successive reads.
\<close>

definition parseReceivedPacketHeader :: "Buffer \<Rightarrow> error + PacketHeader" where
  "parseReceivedPacketHeader data =
     bindE (readUInt32LE data 4) (\<lambda>ty.
     bindE (readUInt16LE data 8) (\<lambda>idx.
     bindE (readUInt16LE data 10) (\<lambda>sub.
     bindE (readUInt16LE data 12) (\<lambda>cnt.
     bindE (readUInt16LE data 14) (\<lambda>len.
     bindE (readUInt16LE data 16) (\<lambda>ctr.
     bindE (readUInt8 data 18) (\<lambda>fl.
     bindE (readUInt8 data 19) (\<lambda>cs.
       Inr \<lparr> headerRawData = slice data 0 20,
             identity = slice data 0 4,
             msgType = ty,
             index = idx,
             subIndex = sub,
             variableCount = cnt,
             packetLength = len,
             counter = ctr,
             flags = fl,
             flagsStr = parseHeaderFlags fl,
             checksum = cs,
             payloadLength = int len - 20 \<rparr>))))))))"

text \<open>
  \<open>Sender.createPacketHeader\<close>, with the same positions: 0, 4, 8, 10, 12, 14, 16, 18, 19.
\<close>

definition createPacketHeader :: "Packet \<Rightarrow> error + Buffer" where
  "createPacketHeader packet =
     (let h = header packet in
      bindE (Inr (copy (identity h) (alloc 20) 0)) (\<lambda>d0.
      bindE (writeUInt32LE d0 (msgType h) 4) (\<lambda>d1.
      bindE (writeUInt16LE d1 (index h) 8) (\<lambda>d2.
      bindE (writeUInt16LE d2 (subIndex h) 10) (\<lambda>d3.
      bindE (writeUInt16LE d3 (variableCount h) 12) (\<lambda>d4.
      bindE (writeUInt16LE d4 (packetLength h) 14) (\<lambda>d5.
      bindE (writeUInt16LE d5 (counter h) 16) (\<lambda>d6.
      bindE (writeUInt8 d6 (flags h) 18) (\<lambda>d7.
      writeUInt8 d7 (checksum h) 19)))))))))"

section \<open>Sender (codesys-client-sender.ts)\<close>

text \<open>
  The schema collaborator (package iec-61131-3) is outside the repository. Of a data type
  the code reads \<open>byteLength\<close>; \<open>convertToBuffer\<close>, \<open>convertFromBuffer\<close> and
  \<open>elementIterator\<close> are calls into the collaborator, whose results are parameters here:
  the raw bytes of the message and the list of elements, each with its \<open>startIndex\<close> and
  its \<open>type\<close> (\<open>elemType\<close>).
\<close>

record IecType =
  byteLength :: nat

record IteratedElement =
  startIndex :: nat
  elemType :: IecType

record Sender =
  counterNumber :: nat

text \<open>
  Lines 113 to 117 of \<open>Sender.send\<close>: the counter of this message and the sender after
  the post-increment.
\<close>

definition takeCounter :: "Sender \<Rightarrow> nat \<times> Sender" where
  "takeCounter s =
     (let s1 = (if counterNumber s \<ge> 65535 then s\<lparr>counterNumber := 0\<rparr> else s)
      in (counterNumber s1, s1\<lparr>counterNumber := counterNumber s1 + 1\<rparr>))"

definition getEmptyPacket :: "nat \<Rightarrow> nat \<Rightarrow> Packet" where
  "getEmptyPacket listId counterNo =
     \<lparr> header = \<lparr> headerRawData = alloc 0,
                  identity = [0x00, 0x2d, 0x53, 0x33],
                  msgType = 0,
                  index = listId,
                  subIndex = 0,
                  variableCount = 0,
                  packetLength = 20,
                  counter = counterNo,
                  flags = 0,
                  flagsStr = [],
                  checksum = 0,
                  payloadLength = 0 \<rparr>,
       payload = \<lparr> payloadRawData = alloc 0 \<rparr>,
       rawData = alloc 0 \<rparr>"

text \<open>The body of the loop over the elements: a new packet when the element does not fit.\<close>

definition nextPacket :: "nat \<Rightarrow> nat \<Rightarrow> Packet \<Rightarrow> Packet" where
  "nextPacket listId counterNo packet =
     (let next = getEmptyPacket listId counterNo
      in next\<lparr>header := (header next)\<lparr>subIndex := subIndex (header packet) + 1\<rparr>\<rparr>)"

definition addElement :: "Buffer \<Rightarrow> IteratedElement \<Rightarrow> Packet \<Rightarrow> Packet" where
  "addElement raw element packet =
     (let n = byteLength (elemType element);
          h = header packet;
          elementRawData = slice raw (startIndex element) (startIndex element + n)
      in packet\<lparr>header := h\<lparr>variableCount := variableCount h + 1,
                              payloadLength := payloadLength h + int n,
                              packetLength := packetLength h + n\<rparr>,
                payload := \<lparr>payloadRawData = payloadRawData (payload packet) @ elementRawData\<rparr>\<rparr>)"

fun splitLoop ::
  "nat \<Rightarrow> nat \<Rightarrow> Buffer \<Rightarrow> IteratedElement list \<Rightarrow> Packet list \<Rightarrow> Packet \<Rightarrow> Packet list" where
  "splitLoop listId counterNo raw [] packets packet = packets @ [packet]"
| "splitLoop listId counterNo raw (element # rest) packets packet =
     (if payloadLength (header packet) + int (byteLength (elemType element)) > 256
      then splitLoop listId counterNo raw rest (packets @ [packet])
             (addElement raw element (nextPacket listId counterNo packet))
      else splitLoop listId counterNo raw rest packets (addElement raw element packet))"

text \<open>Lines 144 to 170 of \<open>Sender.send\<close>: the packets of one message.\<close>

definition splitPackets :: "nat \<Rightarrow> nat \<Rightarrow> Buffer \<Rightarrow> IteratedElement list \<Rightarrow> Packet list" where
  "splitPackets listId counterNo raw elements =
     splitLoop listId counterNo raw elements [] (getEmptyPacket listId counterNo)"

text \<open>Lines 175 to 178: the header bytes and the datagram of each packet.\<close>

fun createRawData :: "Packet list \<Rightarrow> error + Packet list" where
  "createRawData [] = Inr []"
| "createRawData (p # ps) =
     bindE (createPacketHeader p) (\<lambda>hd_bytes.
     bindE (createRawData ps) (\<lambda>ps'.
       Inr (p\<lparr>header := (header p)\<lparr>headerRawData := hd_bytes\<rparr>,
              rawData := hd_bytes @ payloadRawData (payload p)\<rparr> # ps')))"

text \<open>
  \<open>Sender.send\<close> up to the socket: the packets handed to the transport, in order, and the
  sender afterwards.
\<close>

definition send ::
  "Sender \<Rightarrow> nat \<Rightarrow> Buffer \<Rightarrow> IteratedElement list \<Rightarrow> (error + Packet list) \<times> Sender" where
  "send s listId raw elements =
     (let (counterNo, s') = takeCounter s
      in (createRawData (splitPackets listId counterNo raw elements), s'))"

section \<open>Receiver (codesys-client-receiver.ts)\<close>

text \<open>
  A listener's callback is the user's code; it is named by a number, and a call of it is
  recorded together with the assembled bytes that are handed to \<open>convertFromBuffer\<close>.
  The field \<open>counter\<close> of a buffer entry is \<open>entryCounter\<close>.
\<close>

record Listener =
  listID :: nat
  dataType :: IecType
  callback :: nat

record PacketBufferEntry =
  handled :: bool
  entryCounter :: nat
  packets :: "Packet list"
  totalDataBytes :: nat

text \<open>
  Of a socket the model keeps whether it is bound and whether the receiver's data and
  error listeners are attached. The receiver has the three fields of the class; \<open>calls\<close>
  and \<open>socketsCreated\<close> are the trace of the callback invocations and the number of calls
  of \<open>dgram.createSocket\<close>.
\<close>

record Socket =
  isBound :: bool
  dataListeners :: bool

record Receiver =
  socket :: "Socket option"
  packetBuffer :: "nat \<rightharpoonup> PacketBufferEntry"
  handlers :: "Listener list"
  calls :: "(Listener \<times> Buffer) list"
  socketsCreated :: nat

definition newReceiver :: Receiver where
  "newReceiver = \<lparr> socket = None, packetBuffer = Map.empty, handlers = [],
                   calls = [], socketsCreated = 0 \<rparr>"

definition addHandler :: "Receiver \<Rightarrow> nat \<Rightarrow> IecType \<Rightarrow> nat \<Rightarrow> Receiver" where
  "addHandler r lid dt cb =
     r\<lparr>handlers := handlers r @ [\<lparr>listID = lid, dataType = dt, callback = cb\<rparr>]\<rparr>"

text \<open>
  \<open>Receiver.listen\<close>. What the platform answers to \<open>bind\<close> is a parameter: the callback
  of a successful bind, the error event, or an exception.
\<close>

datatype BindOutcome = BindCallback | BindErrorEvent | BindThrows

datatype ListenResult = Resolved | RejectedAlreadyConnected | RejectedBindingFailed

definition listen :: "BindOutcome \<Rightarrow> Receiver \<Rightarrow> ListenResult \<times> Receiver" where
  "listen outcome r =
     (if socket r \<noteq> None then (RejectedAlreadyConnected, r)
      else
        (let r1 = r\<lparr>socket := Some \<lparr>isBound = False, dataListeners = False\<rparr>,
                     socketsCreated := socketsCreated r + 1\<rparr>
         in case outcome of
              BindCallback \<Rightarrow>
                (Resolved, r1\<lparr>socket := Some \<lparr>isBound = True, dataListeners = True\<rparr>\<rparr>)
            | BindErrorEvent \<Rightarrow> (RejectedBindingFailed, r1)
            | BindThrows \<Rightarrow> (RejectedBindingFailed, r1)))"

text \<open>\<open>Receiver.convertBufferEntriesToPacket\<close>\<close>

fun copyPackets :: "Packet list \<Rightarrow> Buffer \<Rightarrow> nat \<Rightarrow> Buffer" where
  "copyPackets [] data pos = data"
| "copyPackets (packet # rest) data pos =
     copyPackets rest (copy (payloadRawData (payload packet)) data pos)
       (pos + length (payloadRawData (payload packet)))"

definition convertBufferEntriesToPacket :: "PacketBufferEntry \<Rightarrow> Buffer" where
  "convertBufferEntriesToPacket buffer =
     copyPackets (packets buffer) (alloc (totalDataBytes buffer)) 0"

text \<open>
  The receiver calls \<open>listener.dataType.convertFromBuffer(data)\<close> and then
  \<open>listener.callback\<close> with the result, with nothing around the two calls that catches
  an exception. Both are code from outside the repository: what happens at such a call
  is a parameter, a function of the calls made so far, the listener and the assembled
  bytes. The conversion throws, or the callback is called and throws, or both return.
  A callback is taken not to call back into the receiver.
\<close>

datatype CallOutcome = Returns | ConvertThrows | CallbackThrows

type_synonym Collaborators = "(Listener \<times> Buffer) list \<Rightarrow> Listener \<Rightarrow> Buffer \<Rightarrow> CallOutcome"

text \<open>
  A method of the receiver returns or throws, and the receiver is in some state after
  either.
\<close>

datatype Outcome = Returned Receiver | Thrown error Receiver

fun stateOf :: "Outcome \<Rightarrow> Receiver" where
  "stateOf (Returned r) = r"
| "stateOf (Thrown e r) = r"

text \<open>
  The loop over the listeners in \<open>Receiver.checkReceivedPacket\<close>: an exception ends it,
  and the listeners after the one that threw are not called.
\<close>

fun callListeners :: "Collaborators \<Rightarrow> Receiver \<Rightarrow> Listener list \<Rightarrow> Buffer \<Rightarrow> Outcome" where
  "callListeners env r [] data = Returned r"
| "callListeners env r (listener # rest) data =
     (case env (calls r) listener data of
        ConvertThrows \<Rightarrow> Thrown CollaboratorError r
      | CallbackThrows \<Rightarrow> Thrown CollaboratorError (r\<lparr>calls := calls r @ [(listener, data)]\<rparr>)
      | Returns \<Rightarrow> callListeners env (r\<lparr>calls := calls r @ [(listener, data)]\<rparr>) rest data)"

text \<open>
  \<open>Receiver.checkReceivedPacket\<close>. The entry \<open>buffer\<close> is an object: at each call it is
  either the object stored under \<open>index\<close> in \<open>packetBuffer\<close> or an object that
  \<open>handleReceivedPacket\<close> has just deleted from it, and then nothing is stored under
  \<open>index\<close>. So the assignment \<open>buffer.handled = true\<close> changes the map exactly when the
  map holds \<open>buffer\<close> under \<open>index\<close>. The assignment comes after the loop over the
  listeners, and is not reached when the loop throws.
\<close>

definition setHandled :: "Receiver \<Rightarrow> nat \<Rightarrow> PacketBufferEntry \<Rightarrow> Receiver" where
  "setHandled r idx buffer =
     (if packetBuffer r idx = Some buffer
      then r\<lparr>packetBuffer := (packetBuffer r)(idx \<mapsto> buffer\<lparr>handled := True\<rparr>)\<rparr>
      else r)"

definition checkReceivedPacket ::
  "Collaborators \<Rightarrow> Receiver \<Rightarrow> nat \<Rightarrow> PacketBufferEntry \<Rightarrow> Outcome" where
  "checkReceivedPacket env r idx buffer =
     (let listeners = filter (\<lambda>listener. listID listener = idx) (handlers r) in
      if length listeners > 0 then
        if byteLength (dataType (hd listeners)) = totalDataBytes buffer then
          (let data = convertBufferEntriesToPacket buffer
           in case callListeners env r listeners data of
                Thrown e r1 \<Rightarrow> Thrown e r1
              | Returned r1 \<Rightarrow> Returned (setHandled r1 idx buffer))
        else if byteLength (dataType (hd listeners)) > totalDataBytes buffer then Returned r
        else Returned r
      else Returned (r\<lparr>packetBuffer := (packetBuffer r)(idx := None)\<rparr>))"

text \<open>
  \<open>Receiver.handleReceivedPacket\<close>. In the second branch the local variable \<open>buffer\<close>
  keeps the old entry when the packet is not a first one, also after the entry has been
  deleted from the map, and the check at the end runs on it.
\<close>

definition handleReceivedPacket :: "Collaborators \<Rightarrow> Receiver \<Rightarrow> Packet \<Rightarrow> Outcome" where
  "handleReceivedPacket env r packet =
     (let idx = index (header packet);
          n = length (payloadRawData (payload packet))
      in case packetBuffer r idx of
           None \<Rightarrow>
             (if subIndex (header packet) = 0 then
                (let buffer = \<lparr> handled = False, entryCounter = counter (header packet),
                                packets = [packet], totalDataBytes = n \<rparr>;
                     r1 = r\<lparr>packetBuffer := (packetBuffer r)(idx \<mapsto> buffer)\<rparr>
                 in checkReceivedPacket env r1 idx buffer)
              else Returned r)
         | Some buffer \<Rightarrow>
             if entryCounter buffer = counter (header packet) then
               (if packets buffer = [] then Thrown TypeError r
                else if subIndex (header packet) = subIndex (header (last (packets buffer))) + 1 then
                  (let buffer1 = buffer\<lparr>packets := packets buffer @ [packet],
                                        totalDataBytes := totalDataBytes buffer + n\<rparr>;
                       r1 = r\<lparr>packetBuffer := (packetBuffer r)(idx \<mapsto> buffer1)\<rparr>
                   in checkReceivedPacket env r1 idx buffer1)
                else Returned (r\<lparr>packetBuffer := (packetBuffer r)(idx := None)\<rparr>))
             else
               (let r0 = (if \<not> handled buffer
                          then r\<lparr>packetBuffer := (packetBuffer r)(idx := None)\<rparr> else r)
                in if subIndex (header packet) = 0 then
                     (let buffer1 = \<lparr> handled = False, entryCounter = counter (header packet),
                                      packets = [packet], totalDataBytes = n \<rparr>;
                          r1 = r0\<lparr>packetBuffer := (packetBuffer r0)(idx \<mapsto> buffer1)\<rparr>
                      in checkReceivedPacket env r1 idx buffer1)
                   else checkReceivedPacket env r0 idx buffer))"

text \<open>
  \<open>Receiver.parseReceivedPacket\<close> and \<open>Receiver.handleReceivedData\<close>; \<open>packetOf\<close> is the
  packet that \<open>parseReceivedPacket\<close> makes of the parsed header and the datagram.
\<close>

definition packetOf :: "PacketHeader \<Rightarrow> Buffer \<Rightarrow> Packet" where
  "packetOf h data =
     \<lparr> header = h,
       payload = \<lparr> payloadRawData = sliceFrom data (length (headerRawData h)) \<rparr>,
       rawData = data \<rparr>"

definition parseReceivedPacket :: "Collaborators \<Rightarrow> Receiver \<Rightarrow> Buffer \<Rightarrow> Outcome" where
  "parseReceivedPacket env r data =
     (case parseReceivedPacketHeader data of
        Inl e \<Rightarrow> Thrown e r
      | Inr h \<Rightarrow> handleReceivedPacket env r (packetOf h data))"

definition handleReceivedData :: "Collaborators \<Rightarrow> Receiver \<Rightarrow> Buffer \<Rightarrow> Outcome" where
  "handleReceivedData env r data = parseReceivedPacket env r data"

text \<open>
  The datagrams arrive one at a time; an exception that leaves the handler of the
  socket's message event is not caught by the receiver.
\<close>

fun receiveAll :: "Collaborators \<Rightarrow> Receiver \<Rightarrow> Buffer list \<Rightarrow> Outcome" where
  "receiveAll env r [] = Returned r"
| "receiveAll env r (data # rest) =
     (case handleReceivedData env r data of
        Thrown e r' \<Rightarrow> Thrown e r'
      | Returned r' \<Rightarrow> receiveAll env r' rest)"

section \<open>Properties named in the claims\<close>

text \<open>
  The field descriptors tile a buffer of \<open>n\<close> bytes from \<open>pos\<close> on: each field starts
  where the one before it ends, and the last one ends at \<open>n\<close>.
\<close>

fun tiles :: "nat \<Rightarrow> IteratedElement list \<Rightarrow> nat \<Rightarrow> bool" where
  "tiles pos [] n = (pos = n)"
| "tiles pos (element # rest) n =
     (startIndex element = pos \<and> tiles (pos + byteLength (elemType element)) rest n)"

text \<open>The bytes of one element, as \<open>Sender.send\<close> slices them from the raw data.\<close>

definition elementBytes :: "Buffer \<Rightarrow> IteratedElement \<Rightarrow> Buffer" where
  "elementBytes raw element =
     slice raw (startIndex element) (startIndex element + byteLength (elemType element))"

text \<open>
  The invariants of a buffer entry stored under a list ID: it has a fragment, the
  fragments have the sub-indices 0, 1, 2 and so on in the order of the list, they are
  fragments of that list and carry the counter of the entry, and \<open>totalDataBytes\<close> is
  the number of payload bytes of the fragments.
\<close>

definition entryOk :: "nat \<Rightarrow> PacketBufferEntry \<Rightarrow> bool" where
  "entryOk idx e \<longleftrightarrow>
     packets e \<noteq> []
     \<and> map (\<lambda>p. subIndex (header p)) (packets e) = [0 ..< length (packets e)]
     \<and> (\<forall>p \<in> set (packets e). index (header p) = idx \<and> counter (header p) = entryCounter e)
     \<and> totalDataBytes e = length (concat (map (\<lambda>p. payloadRawData (payload p)) (packets e)))"

definition bufferOk :: "Receiver \<Rightarrow> bool" where
  "bufferOk r \<longleftrightarrow> (\<forall>idx e. packetBuffer r idx = Some e \<longrightarrow> entryOk idx e)"

text \<open>
  The payload of each stored fragment is its datagram without the first 20 bytes, and
  \<open>totalDataBytes\<close> is the sum of the lengths of the datagrams, 20 off each.
\<close>

definition entryActual :: "PacketBufferEntry \<Rightarrow> bool" where
  "entryActual e \<longleftrightarrow>
     (\<forall>p \<in> set (packets e). payloadRawData (payload p) = drop 20 (rawData p))
     \<and> totalDataBytes e = sum_list (map (\<lambda>p. length (rawData p) - 20) (packets e))"

definition bufferActual :: "Receiver \<Rightarrow> bool" where
  "bufferActual r \<longleftrightarrow> (\<forall>idx e. packetBuffer r idx = Some e \<longrightarrow> entryActual e)"

section \<open>Example values\<close>

text \<open>A header with flags 1 and checksum 2, its twenty bytes, and a datagram with two bytes of payload.\<close>

definition exHeaderPacket :: Packet where
  "exHeaderPacket =
     \<lparr> header = \<lparr> headerRawData = [], identity = [0x00, 0x2d, 0x53, 0x33], msgType = 0,
                  index = 50, subIndex = 0, variableCount = 1, packetLength = 22,
                  counter = 7, flags = 1, flagsStr = [], checksum = 2, payloadLength = 2 \<rparr>,
       payload = \<lparr> payloadRawData = [170, 187] \<rparr>,
       rawData = [] \<rparr>"

definition exHeaderBytes :: Buffer where
  "exHeaderBytes = [0x00, 0x2d, 0x53, 0x33, 0, 0, 0, 0, 50, 0, 0, 0, 1, 0, 22, 0, 7, 0, 1, 2]"

definition exDatagram :: Buffer where
  "exDatagram = exHeaderBytes @ [170, 187]"

definition exParsedHeader :: PacketHeader where
  "exParsedHeader =
     \<lparr> headerRawData = exHeaderBytes, identity = [0x00, 0x2d, 0x53, 0x33], msgType = 0,
       index = 50, subIndex = 0, variableCount = 1, packetLength = 22,
       counter = 7, flags = 1, flagsStr = [''SendAckRequested''], checksum = 2,
       payloadLength = 2 \<rparr>"

text \<open>
  A fragment for list 50 with one variable: sub-index, counter, and \<open>n\<close> bytes of payload,
  all equal (the numbers below 236, so that each fits its byte of the header).
\<close>

definition exFragmentHeader :: "nat \<Rightarrow> nat \<Rightarrow> nat \<Rightarrow> Buffer" where
  "exFragmentHeader sub ctr n =
     [0x00, 0x2d, 0x53, 0x33, 0, 0, 0, 0, 50, 0, word_of_nat sub, 0, 1, 0,
      word_of_nat (20 + n), 0, word_of_nat ctr, 0, 0, 0]"

definition exFragment :: "nat \<Rightarrow> nat \<Rightarrow> byte \<Rightarrow> nat \<Rightarrow> Packet" where
  "exFragment sub ctr fill n =
     \<lparr> header = \<lparr> headerRawData = exFragmentHeader sub ctr n,
                  identity = [0x00, 0x2d, 0x53, 0x33], msgType = 0,
                  index = 50, subIndex = sub, variableCount = 1, packetLength = 20 + n,
                  counter = ctr, flags = 0, flagsStr = [], checksum = 0,
                  payloadLength = int n \<rparr>,
       payload = \<lparr> payloadRawData = replicate n fill \<rparr>,
       rawData = exFragmentHeader sub ctr n @ replicate n fill \<rparr>"

text \<open>A message of 300 bytes in two fields of 200 and 100 bytes.\<close>

definition exRaw :: Buffer where
  "exRaw = replicate 200 1 @ replicate 100 2"

definition exElements :: "IteratedElement list" where
  "exElements = [\<lparr>startIndex = 0, elemType = \<lparr>byteLength = 200\<rparr>\<rparr>,
                 \<lparr>startIndex = 200, elemType = \<lparr>byteLength = 100\<rparr>\<rparr>]"

text \<open>
  A receiver with one listener for list 50, which expects 300 bytes; the entries of list 50
  after the first and after both fragments of the message, and an entry with more bytes
  than the listener expects.
\<close>

definition exListener :: Listener where
  "exListener = \<lparr> listID = 50, dataType = \<lparr>byteLength = 300\<rparr>, callback = 1 \<rparr>"

definition exReceiver :: "(nat \<rightharpoonup> PacketBufferEntry) \<Rightarrow> (Listener \<times> Buffer) list \<Rightarrow> Receiver" where
  "exReceiver pb cs = \<lparr> socket = None, packetBuffer = pb, handlers = [exListener],
                        calls = cs, socketsCreated = 0 \<rparr>"



text \<open>
  Collaborators that always return, and collaborators where the callback with the name 1
  throws.
\<close>

definition returning :: Collaborators where
  "returning cs l d = Returns"


definition exEntry0 :: PacketBufferEntry where
  "exEntry0 = \<lparr> handled = False, entryCounter = 7, packets = [exFragment 0 7 1 200],
                totalDataBytes = 200 \<rparr>"

definition exEntry :: "bool \<Rightarrow> PacketBufferEntry" where
  "exEntry h = \<lparr> handled = h, entryCounter = 7,
                 packets = [exFragment 0 7 1 200, exFragment 1 7 2 100],
                 totalDataBytes = 300 \<rparr>"


text \<open>
  A datagram of 320 bytes whose header gives the packet length 20, the packet that
  the receiver makes of it, and the entry of list 50 that holds this packet.
\<close>

definition exOddDatagram :: Buffer where
  "exOddDatagram = exFragmentHeader 0 9 0 @ replicate 300 5"

definition exOddPacket :: Packet where
  "exOddPacket =
     \<lparr> header = \<lparr> headerRawData = exFragmentHeader 0 9 0,
                  identity = [0x00, 0x2d, 0x53, 0x33], msgType = 0,
                  index = 50, subIndex = 0, variableCount = 1, packetLength = 20,
                  counter = 9, flags = 0, flagsStr = [], checksum = 0, payloadLength = 0 \<rparr>,
       payload = \<lparr> payloadRawData = replicate 300 5 \<rparr>,
       rawData = exOddDatagram \<rparr>"

definition exEntrySingle :: "bool \<Rightarrow> PacketBufferEntry" where
  "exEntrySingle h = \<lparr> handled = h, entryCounter = 9, packets = [exOddPacket],
                       totalDataBytes = 300 \<rparr>"

text \<open>
  A second fragment of message 7 of 120 bytes, whose header gives the packet length 20,
  the packet that the receiver makes of it, and the entry of list 50 after the first
  fragment and this one.
\<close>

definition exOddContDatagram :: Buffer where
  "exOddContDatagram = exFragmentHeader 1 7 0 @ replicate 100 2"

definition exOddContPacket :: Packet where
  "exOddContPacket =
     \<lparr> header = \<lparr> headerRawData = exFragmentHeader 1 7 0,
                  identity = [0x00, 0x2d, 0x53, 0x33], msgType = 0,
                  index = 50, subIndex = 1, variableCount = 1, packetLength = 20,
                  counter = 7, flags = 0, flagsStr = [], checksum = 0, payloadLength = 0 \<rparr>,
       payload = \<lparr> payloadRawData = replicate 100 2 \<rparr>,
       rawData = exOddContDatagram \<rparr>"

definition exEntryOdd :: "bool \<Rightarrow> PacketBufferEntry" where
  "exEntryOdd h = \<lparr> handled = h, entryCounter = 7,
                    packets = [exFragment 0 7 1 200, exOddContPacket],
                    totalDataBytes = 300 \<rparr>"

section \<open>Evaluation of buffers\<close>

lemma list_update_Cons_numeral: "(x # xs)[numeral k := y] = x # xs[pred_numeral k := y]"
  by (simp add: numeral_eq_Suc)

lemma replicate_numeral_Cons: "replicate (numeral k) x = x # replicate (pred_numeral k) x"
  by (simp add: numeral_eq_Suc)

lemmas buf_eval = alloc_def copy_def slice_def sliceFrom_def bindE_def readUInt8_def
  readUInt16LE_def readUInt32LE_def writeUInt8_def writeUInt16LE_def writeUInt32LE_def
  list_update_Cons_numeral replicate_numeral_Cons

lemma bindE_Inr: "bindE m f = Inr y \<longleftrightarrow> (\<exists>x. m = Inr x \<and> f x = Inr y)"
  by (cases m) (auto simp: bindE_def)

lemma unat_byte_of_nat: "x < 256 \<Longrightarrow> unat (word_of_nat x :: byte) = x"
  by (simp add: unat_of_nat)

section \<open>A write followed by a read\<close>

lemma le32_split:
  fixes v :: nat
  shows "v mod 256 + 256 * (v div 256 mod 256) + 65536 * (v div 65536 mod 256)
         + 16777216 * (v div 16777216) = v"
proof -
  define a where "a = v div 256"
  define b where "b = a div 256"
  define c where "c = b div 256"
  define m0 where "m0 = v mod 256"
  define m1 where "m1 = a mod 256"
  define m2 where "m2 = b mod 256"
  have e1: "v = 256 * a + m0" by (simp add: a_def m0_def)
  have e2: "a = 256 * b + m1" by (simp add: b_def m1_def)
  have e3: "b = 256 * c + m2" by (simp add: c_def m2_def)
  have d1: "v div 65536 = b" by (simp add: a_def b_def div_mult2_eq)
  have d2: "v div 16777216 = c" by (simp add: a_def b_def c_def div_mult2_eq)
  have "m0 + 256 * m1 + 65536 * m2 + 16777216 * c = v"
    using e1 e2 e3 by linarith
  then show ?thesis
    unfolding d1 d2
    by (simp only: a_def [symmetric] m0_def [symmetric] m1_def [symmetric] m2_def [symmetric])
qed

lemma read8_write8:
  assumes "writeUInt8 b v off = Inr b'"
  shows "readUInt8 b' off = Inr v"
  using assms
  by (auto simp: writeUInt8_def readUInt8_def unat_byte_of_nat split: if_splits)

lemma read16_write16:
  assumes "writeUInt16LE b v off = Inr b'"
  shows "readUInt16LE b' off = Inr v"
proof -
  from assms have v: "v < 256 * 256" and l: "off + 2 \<le> length b"
    and b': "b' = b[off := word_of_nat (v mod 256), off + 1 := word_of_nat (v div 256)]"
    by (auto simp: writeUInt16LE_def split: if_splits)
  have "v div 256 < 256" using v by (rule less_mult_imp_div_less)
  then have "unat (word_of_nat (v div 256) :: byte) = v div 256"
    by (rule unat_byte_of_nat)
  moreover have "unat (word_of_nat (v mod 256) :: byte) = v mod 256"
    by (rule unat_byte_of_nat) simp
  ultimately show ?thesis using l b'
    by (simp add: readUInt16LE_def)
qed

lemma read32_write32:
  assumes "writeUInt32LE b v off = Inr b'"
  shows "readUInt32LE b' off = Inr v"
proof -
  from assms have v: "v < 256 * 16777216" and l: "off + 4 \<le> length b"
    and b': "b' = b[off := word_of_nat (v mod 256), off + 1 := word_of_nat (v div 256 mod 256),
                    off + 2 := word_of_nat (v div 65536 mod 256),
                    off + 3 := word_of_nat (v div 16777216)]"
    by (auto simp: writeUInt32LE_def split: if_splits)
  have "v div 16777216 < 256" using v by (rule less_mult_imp_div_less)
  then have u3: "unat (word_of_nat (v div 16777216) :: byte) = v div 16777216"
    by (rule unat_byte_of_nat)
  have u: "\<And>x. unat (word_of_nat (x mod 256) :: byte) = x mod 256"
    by (rule unat_byte_of_nat) simp
  show ?thesis using l b' u u3 le32_split [of v]
    by (simp add: readUInt32LE_def)
qed

lemma length_writeUInt8: "writeUInt8 b v off = Inr b' \<Longrightarrow> length b' = length b"
  by (auto simp: writeUInt8_def split: if_splits)

lemma length_writeUInt16LE: "writeUInt16LE b v off = Inr b' \<Longrightarrow> length b' = length b"
  by (auto simp: writeUInt16LE_def split: if_splits)

lemma length_writeUInt32LE: "writeUInt32LE b v off = Inr b' \<Longrightarrow> length b' = length b"
  by (auto simp: writeUInt32LE_def split: if_splits)

lemma length_copy: "length (copy src t pos) = length t"
  by (auto simp: copy_def)

text \<open>A later write, further right in the buffer, leaves an earlier field as it is.\<close>

lemma read16_after_write8:
  "writeUInt8 b v off = Inr b' \<Longrightarrow> o2 + 2 \<le> off \<Longrightarrow> readUInt16LE b' o2 = readUInt16LE b o2"
  by (auto simp: writeUInt8_def readUInt16LE_def split: if_splits)

lemma read32_after_write8:
  "writeUInt8 b v off = Inr b' \<Longrightarrow> o2 + 4 \<le> off \<Longrightarrow> readUInt32LE b' o2 = readUInt32LE b o2"
  by (auto simp: writeUInt8_def readUInt32LE_def split: if_splits)

lemma read8_after_write8:
  "writeUInt8 b v off = Inr b' \<Longrightarrow> o2 \<noteq> off \<Longrightarrow> readUInt8 b' o2 = readUInt8 b o2"
  by (auto simp: writeUInt8_def readUInt8_def split: if_splits)

lemma read16_after_write16:
  "writeUInt16LE b v off = Inr b' \<Longrightarrow> o2 + 2 \<le> off \<Longrightarrow> readUInt16LE b' o2 = readUInt16LE b o2"
  by (auto simp: writeUInt16LE_def readUInt16LE_def split: if_splits)

lemma read32_after_write16:
  "writeUInt16LE b v off = Inr b' \<Longrightarrow> o2 + 4 \<le> off \<Longrightarrow> readUInt32LE b' o2 = readUInt32LE b o2"
  by (auto simp: writeUInt16LE_def readUInt32LE_def split: if_splits)

lemma readUInt8_append: "off + 1 \<le> length b \<Longrightarrow> readUInt8 (b @ r) off = readUInt8 b off"
  by (simp add: readUInt8_def nth_append)

lemma readUInt16LE_append: "off + 2 \<le> length b \<Longrightarrow> readUInt16LE (b @ r) off = readUInt16LE b off"
  by (simp add: readUInt16LE_def nth_append)

lemma readUInt32LE_append: "off + 4 \<le> length b \<Longrightarrow> readUInt32LE (b @ r) off = readUInt32LE b off"
  by (simp add: readUInt32LE_def nth_append)

section \<open>The header codec\<close>

lemma createPacketHeader_fields:
  assumes "createPacketHeader packet = Inr bytes"
  shows "length bytes = 20"
    and "readUInt32LE bytes 4 = Inr (msgType (header packet))"
    and "readUInt16LE bytes 8 = Inr (index (header packet))"
    and "readUInt16LE bytes 10 = Inr (subIndex (header packet))"
    and "readUInt16LE bytes 12 = Inr (variableCount (header packet))"
    and "readUInt16LE bytes 14 = Inr (packetLength (header packet))"
    and "readUInt16LE bytes 16 = Inr (counter (header packet))"
    and "readUInt8 bytes 18 = Inr (flags (header packet))"
    and "readUInt8 bytes 19 = Inr (checksum (header packet))"
proof -
  from assms obtain d1 d2 d3 d4 d5 d6 d7 where
    w1: "writeUInt32LE (copy (identity (header packet)) (alloc 20) 0)
           (msgType (header packet)) 4 = Inr d1"
    and w2: "writeUInt16LE d1 (index (header packet)) 8 = Inr d2"
    and w3: "writeUInt16LE d2 (subIndex (header packet)) 10 = Inr d3"
    and w4: "writeUInt16LE d3 (variableCount (header packet)) 12 = Inr d4"
    and w5: "writeUInt16LE d4 (packetLength (header packet)) 14 = Inr d5"
    and w6: "writeUInt16LE d5 (counter (header packet)) 16 = Inr d6"
    and w7: "writeUInt8 d6 (flags (header packet)) 18 = Inr d7"
    and w8: "writeUInt8 d7 (checksum (header packet)) 19 = Inr bytes"
    by (auto simp: createPacketHeader_def Let_def bindE_Inr)
  show "length bytes = 20"
    using length_writeUInt32LE [OF w1] length_writeUInt16LE [OF w2] length_writeUInt16LE [OF w3]
      length_writeUInt16LE [OF w4] length_writeUInt16LE [OF w5] length_writeUInt16LE [OF w6]
      length_writeUInt8 [OF w7] length_writeUInt8 [OF w8]
    by (simp add: length_copy alloc_def)
  show "readUInt32LE bytes 4 = Inr (msgType (header packet))"
    using read32_write32 [OF w1]
    by (simp add: read32_after_write8 [OF w8] read32_after_write8 [OF w7]
        read32_after_write16 [OF w6] read32_after_write16 [OF w5] read32_after_write16 [OF w4]
        read32_after_write16 [OF w3] read32_after_write16 [OF w2])
  show "readUInt16LE bytes 8 = Inr (index (header packet))"
    using read16_write16 [OF w2]
    by (simp add: read16_after_write8 [OF w8] read16_after_write8 [OF w7]
        read16_after_write16 [OF w6] read16_after_write16 [OF w5] read16_after_write16 [OF w4]
        read16_after_write16 [OF w3])
  show "readUInt16LE bytes 10 = Inr (subIndex (header packet))"
    using read16_write16 [OF w3]
    by (simp add: read16_after_write8 [OF w8] read16_after_write8 [OF w7]
        read16_after_write16 [OF w6] read16_after_write16 [OF w5] read16_after_write16 [OF w4])
  show "readUInt16LE bytes 12 = Inr (variableCount (header packet))"
    using read16_write16 [OF w4]
    by (simp add: read16_after_write8 [OF w8] read16_after_write8 [OF w7]
        read16_after_write16 [OF w6] read16_after_write16 [OF w5])
  show "readUInt16LE bytes 14 = Inr (packetLength (header packet))"
    using read16_write16 [OF w5]
    by (simp add: read16_after_write8 [OF w8] read16_after_write8 [OF w7]
        read16_after_write16 [OF w6])
  show "readUInt16LE bytes 16 = Inr (counter (header packet))"
    using read16_write16 [OF w6]
    by (simp add: read16_after_write8 [OF w8] read16_after_write8 [OF w7])
  show "readUInt8 bytes 18 = Inr (flags (header packet))"
    using read8_write8 [OF w7] by (simp add: read8_after_write8 [OF w8])
  show "readUInt8 bytes 19 = Inr (checksum (header packet))"
    using read8_write8 [OF w8] by simp
qed

lemma parse_of_create:
  assumes "createPacketHeader packet = Inr bytes"
  shows "parseReceivedPacketHeader (bytes @ rest) =
           Inr \<lparr> headerRawData = bytes,
                 identity = take 4 bytes,
                 msgType = msgType (header packet),
                 index = index (header packet),
                 subIndex = subIndex (header packet),
                 variableCount = variableCount (header packet),
                 packetLength = packetLength (header packet),
                 counter = counter (header packet),
                 flags = flags (header packet),
                 flagsStr = parseHeaderFlags (flags (header packet)),
                 checksum = checksum (header packet),
                 payloadLength = int (packetLength (header packet)) - 20 \<rparr>"
  using createPacketHeader_fields [OF assms]
  by (simp add: parseReceivedPacketHeader_def readUInt8_append readUInt16LE_append
      readUInt32LE_append bindE_def slice_def)

lemma parse_short: "length data < 20 \<Longrightarrow> parseReceivedPacketHeader data = Inl RangeError"
  by (auto simp: parseReceivedPacketHeader_def bindE_def readUInt8_def readUInt16LE_def
      readUInt32LE_def split: sum.splits)

lemma parse_long:
  "20 \<le> length data \<Longrightarrow>
     parseReceivedPacketHeader data =
       Inr \<lparr> headerRawData = take 20 data,
             identity = take 4 data,
             msgType = unat (data ! 4) + 256 * unat (data ! 5) + 65536 * unat (data ! 6)
                       + 16777216 * unat (data ! 7),
             index = unat (data ! 8) + 256 * unat (data ! 9),
             subIndex = unat (data ! 10) + 256 * unat (data ! 11),
             variableCount = unat (data ! 12) + 256 * unat (data ! 13),
             packetLength = unat (data ! 14) + 256 * unat (data ! 15),
             counter = unat (data ! 16) + 256 * unat (data ! 17),
             flags = unat (data ! 18),
             flagsStr = parseHeaderFlags (unat (data ! 18)),
             checksum = unat (data ! 19),
             payloadLength = int (unat (data ! 14) + 256 * unat (data ! 15)) - 20 \<rparr>"
  by (simp add: parseReceivedPacketHeader_def bindE_def readUInt8_def readUInt16LE_def
      readUInt32LE_def slice_def)

lemma exHeader_create: "createPacketHeader exHeaderPacket = Inr exHeaderBytes"
  by (simp add: createPacketHeader_def exHeaderPacket_def exHeaderBytes_def buf_eval)

lemma exHeader_parse: "parseReceivedPacketHeader exDatagram = Inr exParsedHeader"
  by (simp add: parseReceivedPacketHeader_def exDatagram_def exHeaderBytes_def
      exParsedHeader_def buf_eval parseHeaderFlags_def)

section \<open>The packets of a message\<close>

lemma splitLoop_prefix:
  "splitLoop l c raw els acc packet = acc @ splitLoop l c raw els [] packet"
proof (induction els arbitrary: acc packet)
  case Nil
  show ?case by simp
next
  case (Cons e es)
  show ?case
  proof (cases "payloadLength (header packet) + int (byteLength (elemType e)) > 256")
    case True
    have "splitLoop l c raw (e # es) acc packet
            = (acc @ [packet]) @ splitLoop l c raw es [] (addElement raw e (nextPacket l c packet))"
      using True Cons.IH [of "acc @ [packet]"] by simp
    moreover have "splitLoop l c raw (e # es) [] packet
            = [packet] @ splitLoop l c raw es [] (addElement raw e (nextPacket l c packet))"
      using True Cons.IH [of "[packet]"] by simp
    ultimately show ?thesis by simp
  next
    case False
    then show ?thesis using Cons.IH [of acc] by simp
  qed
qed

lemma splitLoop_Cons:
  "splitLoop l c raw (e # es) [] packet =
     (if payloadLength (header packet) + int (byteLength (elemType e)) > 256
      then packet # splitLoop l c raw es [] (addElement raw e (nextPacket l c packet))
      else splitLoop l c raw es [] (addElement raw e packet))"
  using splitLoop_prefix [of l c raw es "[packet]"] by simp

lemma payload_addElement:
  "payloadRawData (payload (addElement raw e packet))
     = payloadRawData (payload packet) @ elementBytes raw e"
  by (simp add: addElement_def Let_def elementBytes_def)

lemma payload_nextPacket: "payloadRawData (payload (nextPacket l c packet)) = []"
  by (simp add: nextPacket_def getEmptyPacket_def alloc_def Let_def)

lemma splitLoop_payloads:
  "concat (map (\<lambda>p. payloadRawData (payload p)) (splitLoop l c raw els [] packet))
     = payloadRawData (payload packet) @ concat (map (elementBytes raw) els)"
proof (induction els arbitrary: packet)
  case Nil
  show ?case by simp
next
  case (Cons e es)
  show ?case
    unfolding splitLoop_Cons
    by (simp add: Cons.IH payload_addElement payload_nextPacket)
qed

lemma tiles_concat:
  "tiles pos els (length raw) \<Longrightarrow> concat (map (elementBytes raw) els) = drop pos raw"
proof (induction els arbitrary: pos)
  case Nil
  then show ?case by simp
next
  case (Cons e es)
  from Cons.prems have s: "startIndex e = pos"
    and t: "tiles (pos + byteLength (elemType e)) es (length raw)" by simp_all
  have a: "elementBytes raw e = take (byteLength (elemType e)) (drop pos raw)"
    by (simp add: elementBytes_def slice_def s)
  have b: "drop (pos + byteLength (elemType e)) raw = drop (byteLength (elemType e)) (drop pos raw)"
    by (simp add: add.commute)
  have "elementBytes raw e @ drop (pos + byteLength (elemType e)) raw = drop pos raw"
    by (simp only: a b append_take_drop_id)
  then show ?case using Cons.IH [OF t] by simp
qed

lemma counter_addElement: "counter (header (addElement raw e packet)) = counter (header packet)"
  by (simp add: addElement_def Let_def)

lemma counter_nextPacket: "counter (header (nextPacket l c packet)) = c"
  by (simp add: nextPacket_def getEmptyPacket_def Let_def)

lemma splitLoop_counter:
  "counter (header packet) = c \<Longrightarrow> p \<in> set (splitLoop l c raw els [] packet)
     \<Longrightarrow> counter (header p) = c"
proof (induction els arbitrary: packet)
  case Nil
  then show ?case by simp
next
  case (Cons e es)
  from Cons.prems(2) show ?case
    unfolding splitLoop_Cons
    using Cons.IH [of "addElement raw e (nextPacket l c packet)"]
      Cons.IH [of "addElement raw e packet"] Cons.prems(1)
    by (auto simp: counter_addElement counter_nextPacket split: if_splits)
qed

lemma subIndex_addElement: "subIndex (header (addElement raw e packet)) = subIndex (header packet)"
  by (simp add: addElement_def Let_def)

lemma subIndex_nextPacket: "subIndex (header (nextPacket l c packet)) = subIndex (header packet) + 1"
  by (simp add: nextPacket_def getEmptyPacket_def Let_def)

lemma upt_shift: "[i ..< i + Suc n] = i # [Suc i ..< Suc i + n]"
  by (simp add: upt_conv_Cons del: upt_Suc)

lemma splitLoop_subIndex:
  "map (\<lambda>p. subIndex (header p)) (splitLoop l c raw els [] packet)
     = [subIndex (header packet) ..< subIndex (header packet) + length (splitLoop l c raw els [] packet)]"
proof (induction els arbitrary: packet)
  case Nil
  show ?case by simp
next
  case (Cons e es)
  show ?case
  proof (cases "payloadLength (header packet) + int (byteLength (elemType e)) > 256")
    case True
    let ?q = "addElement raw e (nextPacket l c packet)"
    have q: "subIndex (header ?q) = Suc (subIndex (header packet))"
      by (simp add: subIndex_addElement subIndex_nextPacket)
    have "splitLoop l c raw (e # es) [] packet = packet # splitLoop l c raw es [] ?q"
      by (subst splitLoop_Cons) (simp add: True)
    then show ?thesis
      using Cons.IH [of ?q] upt_shift [of "subIndex (header packet)"]
      by (simp add: q del: upt_Suc)
  next
    case False
    then show ?thesis
      using Cons.IH [of "addElement raw e packet"]
      by (simp add: splitLoop_Cons subIndex_addElement)
  qed
qed

lemma createRawData_fields:
  "createRawData ps = Inr qs \<Longrightarrow>
     map (\<lambda>p. payloadRawData (payload p)) qs = map (\<lambda>p. payloadRawData (payload p)) ps
     \<and> map (\<lambda>p. counter (header p)) qs = map (\<lambda>p. counter (header p)) ps
     \<and> map (\<lambda>p. subIndex (header p)) qs = map (\<lambda>p. subIndex (header p)) ps"
proof (induction ps arbitrary: qs)
  case Nil
  then show ?case by simp
next
  case (Cons p ps)
  from Cons.prems obtain hb qs' where h: "createPacketHeader p = Inr hb"
    and r: "createRawData ps = Inr qs'"
    and q: "qs = p\<lparr>header := (header p)\<lparr>headerRawData := hb\<rparr>,
                   rawData := hb @ payloadRawData (payload p)\<rparr> # qs'"
    by (auto simp: bindE_Inr)
  show ?case using Cons.IH [OF r] by (simp add: q)
qed

lemma exSend:
  "send \<lparr>counterNumber = 7\<rparr> 50 exRaw exElements = (Inr [exFragment 0 7 1 200, exFragment 1 7 2 100], \<lparr>counterNumber = 8\<rparr>)"
  by (simp add: send_def takeCounter_def splitPackets_def getEmptyPacket_def addElement_def
      nextPacket_def exRaw_def exElements_def exFragment_def exFragmentHeader_def createPacketHeader_def
      Let_def buf_eval)

lemma splitLoop_full_packet:
  "256 < payloadLength (header q) \<Longrightarrow> take 1 (splitLoop l c raw es [] q) = [q]"
  by (cases es) (simp_all add: splitLoop_Cons del: splitLoop.simps(2))

lemma payloadLength_addElement:
  "payloadLength (header (addElement raw e packet))
     = payloadLength (header packet) + int (byteLength (elemType e))"
  by (simp add: addElement_def Let_def)

lemma payloadLength_nextPacket: "payloadLength (header (nextPacket l c packet)) = 0"
  by (simp add: nextPacket_def getEmptyPacket_def Let_def)

section \<open>The packet buffer\<close>

lemma copy_exact:
  assumes that: "pos + length src \<le> length t"
  shows "copy src t pos = take pos t @ src @ drop (pos + length src) t"
proof (cases "pos < length t")
  case True
  then show ?thesis using that by (simp add: copy_def)
next
  case False
  with that have "length src = 0" by arith
  then show ?thesis using False by (simp add: copy_def)
qed

lemma copyPackets_concat:
  "pos + length (concat (map (\<lambda>p. payloadRawData (payload p)) ps)) \<le> length t \<Longrightarrow>
     copyPackets ps t pos =
       take pos t @ concat (map (\<lambda>p. payloadRawData (payload p)) ps)
         @ drop (pos + length (concat (map (\<lambda>p. payloadRawData (payload p)) ps))) t"
proof (induction ps arbitrary: t pos)
  case Nil
  show ?case by simp
next
  case (Cons p ps)
  let ?src = "payloadRawData (payload p)"
  let ?rest = "concat (map (\<lambda>p. payloadRawData (payload p)) ps)"
  let ?t' = "take pos t @ ?src @ drop (pos + length ?src) t"
  from Cons.prems have le: "pos + length ?src + length ?rest \<le> length t" by simp
  then have c: "copy ?src t pos = ?t'" by (simp add: copy_exact)
  have len: "length ?t' = length t" using le by simp
  have le': "pos + length ?src + length ?rest \<le> length ?t'"
    using le by (simp only: len)
  have "copyPackets ps ?t' (pos + length ?src) =
          take (pos + length ?src) ?t' @ ?rest @ drop (pos + length ?src + length ?rest) ?t'"
    by (rule Cons.IH) (rule le')
  moreover have "take (pos + length ?src) ?t' = take pos t @ ?src"
    using le by simp
  moreover have "drop (pos + length ?src + length ?rest) ?t'
                   = drop (pos + length ?src + length ?rest) t"
    using le by (simp add: ac_simps)
  ultimately show ?case by (simp add: c add.assoc)
qed

lemma convertBufferEntriesToPacket_concat:
  "totalDataBytes buffer = length (concat (map (\<lambda>p. payloadRawData (payload p)) (packets buffer)))
     \<Longrightarrow> convertBufferEntriesToPacket buffer
           = concat (map (\<lambda>p. payloadRawData (payload p)) (packets buffer))"
  by (simp add: convertBufferEntriesToPacket_def copyPackets_concat alloc_def)

section \<open>The listeners and the completeness check\<close>

lemma callListeners_state:
  "\<exists>k \<le> length ls. stateOf (callListeners env r ls data)
       = r\<lparr>calls := calls r @ map (\<lambda>l. (l, data)) (take k ls)\<rparr>"
proof (induction ls arbitrary: r)
  case Nil
  show ?case by simp
next
  case (Cons l ls)
  show ?case
  proof (cases "env (calls r) l data")
    case Returns
    from Cons.IH [of "r\<lparr>calls := calls r @ [(l, data)]\<rparr>"] obtain k where
      k: "k \<le> length ls"
      and s: "stateOf (callListeners env (r\<lparr>calls := calls r @ [(l, data)]\<rparr>) ls data)
                = r\<lparr>calls := calls r @ [(l, data)]\<rparr>
                    \<lparr>calls := calls (r\<lparr>calls := calls r @ [(l, data)]\<rparr>)
                                @ map (\<lambda>l. (l, data)) (take k ls)\<rparr>"
      by blast
    have "Suc k \<le> length (l # ls)" using k by simp
    moreover have "stateOf (callListeners env r (l # ls) data)
        = r\<lparr>calls := calls r @ map (\<lambda>l. (l, data)) (take (Suc k) (l # ls))\<rparr>"
      using Returns s by simp
    ultimately show ?thesis by blast
  next
    case ConvertThrows
    have "stateOf (callListeners env r (l # ls) data)
            = r\<lparr>calls := calls r @ map (\<lambda>l. (l, data)) (take 0 (l # ls))\<rparr>"
      using ConvertThrows by simp
    then show ?thesis by blast
  next
    case CallbackThrows
    have "stateOf (callListeners env r (l # ls) data)
            = r\<lparr>calls := calls r @ map (\<lambda>l. (l, data)) (take (Suc 0) (l # ls))\<rparr>"
      using CallbackThrows by simp
    moreover have "Suc 0 \<le> length (l # ls)" by simp
    ultimately show ?thesis by blast
  qed
qed

lemma callListeners_Returned:
  "callListeners env r ls data = Returned r1 \<Longrightarrow>
     r1 = r\<lparr>calls := calls r @ map (\<lambda>l. (l, data)) ls\<rparr>"
proof (induction ls arbitrary: r)
  case Nil
  then show ?case by simp
next
  case (Cons l ls)
  from Cons.prems have e: "env (calls r) l data = Returns"
    by (cases "env (calls r) l data") simp_all
  with Cons.prems have
    "callListeners env (r\<lparr>calls := calls r @ [(l, data)]\<rparr>) ls data = Returned r1"
    by simp
  from Cons.IH [OF this] show ?case by simp
qed

lemma callListeners_Thrown:
  "callListeners env r ls data = Thrown e r1 \<Longrightarrow>
     e = CollaboratorError
     \<and> (\<exists>pre l post. ls = pre @ l # post
           \<and> (r1 = r\<lparr>calls := calls r @ map (\<lambda>l. (l, data)) pre\<rparr>
              \<or> r1 = r\<lparr>calls := calls r @ map (\<lambda>l. (l, data)) (pre @ [l])\<rparr>))"
proof (induction ls arbitrary: r)
  case Nil
  then show ?case by simp
next
  case (Cons l ls)
  show ?case
  proof (cases "env (calls r) l data")
    case Returns
    with Cons.prems have
      "callListeners env (r\<lparr>calls := calls r @ [(l, data)]\<rparr>) ls data = Thrown e r1"
      by simp
    from Cons.IH [OF this] obtain pre l' post where
      e: "e = CollaboratorError" and ls: "ls = pre @ l' # post"
      and r1: "r1 = r\<lparr>calls := calls r @ [(l, data)]\<rparr>
                      \<lparr>calls := calls (r\<lparr>calls := calls r @ [(l, data)]\<rparr>)
                                  @ map (\<lambda>l. (l, data)) pre\<rparr>
               \<or> r1 = r\<lparr>calls := calls r @ [(l, data)]\<rparr>
                      \<lparr>calls := calls (r\<lparr>calls := calls r @ [(l, data)]\<rparr>)
                                  @ map (\<lambda>l. (l, data)) (pre @ [l'])\<rparr>"
      by blast
    have "l # ls = (l # pre) @ l' # post" using ls by simp
    moreover have "r1 = r\<lparr>calls := calls r @ map (\<lambda>l. (l, data)) (l # pre)\<rparr>
                 \<or> r1 = r\<lparr>calls := calls r @ map (\<lambda>l. (l, data)) ((l # pre) @ [l'])\<rparr>"
      using r1 by simp
    ultimately show ?thesis using e by blast
  next
    case ConvertThrows
    with Cons.prems have "e = CollaboratorError" and "r1 = r" by simp_all
    then have "e = CollaboratorError" and "l # ls = [] @ l # ls"
      and "r1 = r\<lparr>calls := calls r @ map (\<lambda>l. (l, data)) []\<rparr>" by simp_all
    then show ?thesis by blast
  next
    case CallbackThrows
    with Cons.prems have "e = CollaboratorError"
      and "r1 = r\<lparr>calls := calls r @ [(l, data)]\<rparr>" by simp_all
    then have "e = CollaboratorError" and "l # ls = [] @ l # ls"
      and "r1 = r\<lparr>calls := calls r @ map (\<lambda>l. (l, data)) ([] @ [l])\<rparr>" by simp_all
    then show ?thesis by blast
  qed
qed

lemma callListeners_returning:
  "(\<And>cs l d. env cs l d = Returns) \<Longrightarrow>
     callListeners env r ls data = Returned (r\<lparr>calls := calls r @ map (\<lambda>l. (l, data)) ls\<rparr>)"
  by (induction ls arbitrary: r) simp_all

lemma packetBuffer_callListeners:
  "packetBuffer (stateOf (callListeners env r ls data)) = packetBuffer r"
  using callListeners_state [of ls env r data] by auto

lemma handlers_callListeners:
  "handlers (stateOf (callListeners env r ls data)) = handlers r"
  using callListeners_state [of ls env r data] by auto

lemma checkReceivedPacket_cases:
  "checkReceivedPacket env r idx b =
     (case filter (\<lambda>l. listID l = idx) (handlers r) of
        [] \<Rightarrow> Returned (r\<lparr>packetBuffer := (packetBuffer r)(idx := None)\<rparr>)
      | first # others \<Rightarrow>
          if byteLength (dataType first) = totalDataBytes b
          then (case callListeners env r (first # others) (convertBufferEntriesToPacket b) of
                  Thrown e r1 \<Rightarrow> Thrown e r1
                | Returned r1 \<Rightarrow> Returned (setHandled r1 idx b))
          else Returned r)"
  by (simp add: checkReceivedPacket_def Let_def split: list.splits)

lemma handlers_setHandled: "handlers (setHandled r idx b) = handlers r"
  by (simp add: setHandled_def)

lemma packetBuffer_setHandled:
  "packetBuffer (setHandled r idx b) j =
     (if j = idx \<and> packetBuffer r idx = Some b then Some (b\<lparr>handled := True\<rparr>)
      else packetBuffer r j)"
  by (simp add: setHandled_def)

lemma stateOf_check_fired:
  "stateOf (case callListeners env r ls data of
              Thrown e r1 \<Rightarrow> Thrown e r1
            | Returned r1 \<Rightarrow> Returned (setHandled r1 idx b))
     = (case callListeners env r ls data of
          Thrown e r1 \<Rightarrow> r1
        | Returned r1 \<Rightarrow> setHandled r1 idx b)"
  by (cases "callListeners env r ls data") simp_all

lemma handlers_checkReceivedPacket:
  "handlers (stateOf (checkReceivedPacket env r idx b)) = handlers r"
proof (cases "filter (\<lambda>l. listID l = idx) (handlers r)")
  case Nil
  then show ?thesis by (simp add: checkReceivedPacket_cases)
next
  case (Cons first others)
  show ?thesis
    using handlers_callListeners [of env r "first # others" "convertBufferEntriesToPacket b"]
    by (cases "callListeners env r (first # others) (convertBufferEntriesToPacket b)")
      (simp_all add: checkReceivedPacket_cases Cons handlers_setHandled)
qed

text \<open>What the check can do to the map.\<close>

lemma packetBuffer_checkReceivedPacket:
  "packetBuffer (stateOf (checkReceivedPacket env r idx b)) j = packetBuffer r j
   \<or> (j = idx \<and> packetBuffer (stateOf (checkReceivedPacket env r idx b)) j = None
        \<and> filter (\<lambda>l. listID l = idx) (handlers r) = [])
   \<or> (j = idx \<and> packetBuffer r idx = Some b
        \<and> packetBuffer (stateOf (checkReceivedPacket env r idx b)) j = Some (b\<lparr>handled := True\<rparr>))"
proof (cases "filter (\<lambda>l. listID l = idx) (handlers r)")
  case Nil
  then show ?thesis by (simp add: checkReceivedPacket_cases)
next
  case (Cons first others)
  show ?thesis
    using packetBuffer_callListeners [of env r "first # others" "convertBufferEntriesToPacket b"]
    by (cases "callListeners env r (first # others) (convertBufferEntriesToPacket b)")
      (simp_all add: checkReceivedPacket_cases Cons packetBuffer_setHandled)
qed

lemma check_preserves:
  assumes inv: "\<forall>j e. packetBuffer r j = Some e \<longrightarrow> P j e"
    and hd: "\<And>j e. P j e \<Longrightarrow> P j (e\<lparr>handled := True\<rparr>)"
  shows "\<forall>j e. packetBuffer (stateOf (checkReceivedPacket env r idx b)) j = Some e \<longrightarrow> P j e"
proof (intro allI impI)
  fix j e
  assume s: "packetBuffer (stateOf (checkReceivedPacket env r idx b)) j = Some e"
  from packetBuffer_checkReceivedPacket [of env r idx b j] s inv hd
  show "P j e" by auto
qed


lemma handle_preserves:
  assumes inv: "\<forall>j e. packetBuffer r j = Some e \<longrightarrow> P j e"
    and hd: "\<And>j e. P j e \<Longrightarrow> P j (e\<lparr>handled := True\<rparr>)"
    and fresh: "subIndex (header p) = 0 \<Longrightarrow>
           P (index (header p))
             \<lparr>handled = False, entryCounter = counter (header p), packets = [p],
              totalDataBytes = length (payloadRawData (payload p))\<rparr>"
    and app: "\<And>e. P (index (header p)) e \<Longrightarrow> entryCounter e = counter (header p) \<Longrightarrow>
           packets e \<noteq> [] \<Longrightarrow>
           subIndex (header p) = subIndex (header (last (packets e))) + 1 \<Longrightarrow>
           P (index (header p))
             (e\<lparr>packets := packets e @ [p],
                totalDataBytes := totalDataBytes e + length (payloadRawData (payload p))\<rparr>)"
  shows "\<forall>j e. packetBuffer (stateOf (handleReceivedPacket env r p)) j = Some e \<longrightarrow> P j e"
proof -
  let ?idx = "index (header p)"
  let ?new = "\<lparr>handled = False, entryCounter = counter (header p), packets = [p],
               totalDataBytes = length (payloadRawData (payload p))\<rparr>"
  have del: "\<forall>j e. packetBuffer (r\<lparr>packetBuffer := (packetBuffer r)(?idx := None)\<rparr>) j = Some e
               \<longrightarrow> P j e"
    using inv by simp
  have put: "\<forall>j e. packetBuffer (s\<lparr>packetBuffer := (packetBuffer s)(?idx \<mapsto> n)\<rparr>) j = Some e
               \<longrightarrow> P j e"
    if "\<forall>j e. packetBuffer s j = Some e \<longrightarrow> P j e" and "P ?idx n" for s :: Receiver and n
    using that by simp
  show ?thesis
  proof (cases "packetBuffer r ?idx")
    case None
    show ?thesis
    proof (cases "subIndex (header p) = 0")
      case True
      with None have
        "handleReceivedPacket env r p
           = checkReceivedPacket env (r\<lparr>packetBuffer := (packetBuffer r)(?idx \<mapsto> ?new)\<rparr>) ?idx ?new"
        by (simp add: handleReceivedPacket_def Let_def)
      then show ?thesis
        using check_preserves [OF put [OF inv fresh [OF True]] hd] by simp
    next
      case False
      with None have "handleReceivedPacket env r p = Returned r"
        by (simp add: handleReceivedPacket_def Let_def)
      then show ?thesis using inv by simp
    qed
  next
    case (Some b)
    then have Pb: "P ?idx b" using inv by simp
    show ?thesis
    proof (cases "entryCounter b = counter (header p)")
      case same: True
      show ?thesis
      proof (cases "packets b = []")
        case True
        with Some same have "handleReceivedPacket env r p = Thrown TypeError r"
          by (simp add: handleReceivedPacket_def Let_def)
        then show ?thesis using inv by simp
      next
        case ne: False
        show ?thesis
        proof (cases "subIndex (header p) = subIndex (header (last (packets b))) + 1")
          case True
          let ?b1 = "b\<lparr>packets := packets b @ [p],
                       totalDataBytes := totalDataBytes b + length (payloadRawData (payload p))\<rparr>"
          from Some same ne True have
            "handleReceivedPacket env r p
               = checkReceivedPacket env (r\<lparr>packetBuffer := (packetBuffer r)(?idx \<mapsto> ?b1)\<rparr>) ?idx ?b1"
            by (simp add: handleReceivedPacket_def Let_def)
          then show ?thesis
            using check_preserves [OF put [OF inv app [OF Pb same ne True]] hd] by simp
        next
          case False
          with Some same ne have
            "handleReceivedPacket env r p
               = Returned (r\<lparr>packetBuffer := (packetBuffer r)(?idx := None)\<rparr>)"
            by (simp add: handleReceivedPacket_def Let_def)
          then show ?thesis using del by simp
        qed
      qed
    next
      case diff: False
      let ?r0 = "if \<not> handled b then r\<lparr>packetBuffer := (packetBuffer r)(?idx := None)\<rparr> else r"
      have r0: "\<forall>j e. packetBuffer ?r0 j = Some e \<longrightarrow> P j e"
        using inv del by (cases "handled b") simp_all
      show ?thesis
      proof (cases "subIndex (header p) = 0")
        case True
        with Some diff have
          "handleReceivedPacket env r p
             = checkReceivedPacket env (?r0\<lparr>packetBuffer := (packetBuffer ?r0)(?idx \<mapsto> ?new)\<rparr>) ?idx ?new"
          by (simp add: handleReceivedPacket_def Let_def)
        then show ?thesis
          using check_preserves [OF put [OF r0 fresh [OF True]] hd] by simp
      next
        case False
        with Some diff have "handleReceivedPacket env r p = checkReceivedPacket env ?r0 ?idx b"
          by (simp add: handleReceivedPacket_def Let_def)
        then show ?thesis
          using check_preserves [OF r0 hd] by simp
      qed
    qed
  qed
qed

lemma handlers_handleReceivedPacket:
  "handlers (stateOf (handleReceivedPacket env r p)) = handlers r"
  by (simp add: handleReceivedPacket_def Let_def handlers_checkReceivedPacket
      split: option.splits)

lemma entryOk_handled: "entryOk j (e\<lparr>handled := True\<rparr>) = entryOk j e"
  by (simp add: entryOk_def)

lemma handleReceivedPacket_bufferOk:
  assumes inv: "bufferOk r"
  shows "bufferOk (stateOf (handleReceivedPacket env r p))"
proof -
  have "\<forall>j e. packetBuffer (stateOf (handleReceivedPacket env r p)) j = Some e \<longrightarrow> entryOk j e"
  proof (rule handle_preserves [where P = entryOk and p = p and r = r])
    show "\<forall>j e. packetBuffer r j = Some e \<longrightarrow> entryOk j e"
      using inv by (simp add: bufferOk_def)
    show "\<And>j e. entryOk j e \<Longrightarrow> entryOk j (e\<lparr>handled := True\<rparr>)"
      by (simp add: entryOk_handled)
    show "subIndex (header p) = 0 \<Longrightarrow>
            entryOk (index (header p))
              \<lparr>handled = False, entryCounter = counter (header p), packets = [p],
               totalDataBytes = length (payloadRawData (payload p))\<rparr>"
      by (simp add: entryOk_def)
    show "entryOk (index (header p))
            (e\<lparr>packets := packets e @ [p],
               totalDataBytes := totalDataBytes e + length (payloadRawData (payload p))\<rparr>)"
      if ok: "entryOk (index (header p)) e" and c: "entryCounter e = counter (header p)"
        and ne: "packets e \<noteq> []"
        and nx: "subIndex (header p) = subIndex (header (last (packets e))) + 1" for e
    proof -
      let ?n = "length (packets e)"
      from ok have m: "map (\<lambda>p. subIndex (header p)) (packets e) = [0 ..< ?n]"
        by (simp add: entryOk_def)
      have "subIndex (header (last (packets e))) = last (map (\<lambda>p. subIndex (header p)) (packets e))"
        using ne by (simp add: last_map)
      also have "\<dots> = ?n - 1" using ne by (simp add: m)
      finally have "subIndex (header p) = ?n" using nx ne by simp
      then show ?thesis using ok c by (simp add: entryOk_def)
    qed
  qed
  then show ?thesis by (simp add: bufferOk_def)
qed

lemma check_entry_at:
  assumes "packetBuffer r idx = Some b"
  shows "packetBuffer (stateOf (checkReceivedPacket env r idx b)) idx = None
       \<or> (\<exists>e. packetBuffer (stateOf (checkReceivedPacket env r idx b)) idx = Some e
             \<and> entryCounter e = entryCounter b \<and> packets e = packets b
             \<and> totalDataBytes e = totalDataBytes b)"
  using assms packetBuffer_checkReceivedPacket [of env r idx b idx] by auto

lemma check_entry_kept:
  assumes "packetBuffer r idx = Some b" and "filter (\<lambda>l. listID l = idx) (handlers r) \<noteq> []"
  shows "\<exists>e. packetBuffer (stateOf (checkReceivedPacket env r idx b)) idx = Some e
             \<and> entryCounter e = entryCounter b \<and> packets e = packets b
             \<and> totalDataBytes e = totalDataBytes b"
  using assms packetBuffer_checkReceivedPacket [of env r idx b idx] by auto

lemma check_returning:
  assumes "\<forall>cs l d. env cs l d = Returns"
  shows "\<exists>r'. checkReceivedPacket env r idx b = Returned r'"
proof (cases "filter (\<lambda>l. listID l = idx) (handlers r)")
  case Nil
  then show ?thesis by (simp add: checkReceivedPacket_cases)
next
  case (Cons first others)
  then show ?thesis
    using assms
    by (simp add: checkReceivedPacket_cases callListeners_returning [of env]
        del: callListeners.simps)
qed

lemma gap_rule:
  assumes "packetBuffer r (index (header f)) = Some b"
    and "entryCounter b = counter (header f)"
    and "packets b \<noteq> []"
    and "subIndex (header f) \<noteq> subIndex (header (last (packets b))) + 1"
  shows "handleReceivedPacket env r f
           = Returned (r\<lparr>packetBuffer := (packetBuffer r)(index (header f) := None)\<rparr>)"
  using assms by (simp add: handleReceivedPacket_def Let_def)

text \<open>A fragment that is not a first one and finds no entry of its list changes nothing.\<close>

lemma orphan_fragment_discarded:
  assumes "packetBuffer r (index (header f)) = None" and "subIndex (header f) \<noteq> 0"
  shows "handleReceivedPacket env r f = Returned r"
  using assms by (simp add: handleReceivedPacket_def Let_def)

lemma fresh_rule:
  assumes "packetBuffer r (index (header q)) = None" and "subIndex (header q) = 0"
  shows "handleReceivedPacket env r q =
           checkReceivedPacket env
             (r\<lparr>packetBuffer := (packetBuffer r)(index (header q) \<mapsto>
                   \<lparr>handled = False, entryCounter = counter (header q), packets = [q],
                    totalDataBytes = length (payloadRawData (payload q))\<rparr>)\<rparr>)
             (index (header q))
             \<lparr>handled = False, entryCounter = counter (header q), packets = [q],
              totalDataBytes = length (payloadRawData (payload q))\<rparr>"
  using assms by (simp add: handleReceivedPacket_def Let_def)

lemma handle_TypeError:
  assumes "bufferOk r" and "handleReceivedPacket env r p = Thrown e r'"
  shows "e = CollaboratorError"
proof -
  have c: "e = CollaboratorError" if "checkReceivedPacket env s idx b = Thrown e r'" for s idx b
  proof (cases "filter (\<lambda>l. listID l = idx) (handlers s)")
    case Nil
    with that show ?thesis by (simp add: checkReceivedPacket_cases)
  next
    case (Cons first others)
    show ?thesis
    proof (cases "callListeners env s (first # others) (convertBufferEntriesToPacket b)")
      case (Returned x)
      with that Cons show ?thesis
        by (simp add: checkReceivedPacket_cases split: if_splits)
    next
      case (Thrown e' x)
      with that Cons have "e' = e"
        by (simp add: checkReceivedPacket_cases split: if_splits)
      with callListeners_Thrown [OF Thrown] show ?thesis by simp
    qed
  qed
  have ne: "packets b \<noteq> []" if "packetBuffer r (index (header p)) = Some b" for b
    using assms(1) that by (simp add: bufferOk_def entryOk_def)
  from assms(2) show ?thesis
    by (auto simp: handleReceivedPacket_def Let_def ne dest: c split: option.splits if_splits)
qed

lemma handle_returning:
  assumes "bufferOk r" and "\<forall>cs l d. env cs l d = Returns"
  shows "\<exists>r'. handleReceivedPacket env r p = Returned r'"
proof (cases "handleReceivedPacket env r p")
  case (Returned x)
  then show ?thesis by simp
next
  case (Thrown e x)
  have ne: "packets b \<noteq> []" if "packetBuffer r (index (header p)) = Some b" for b
    using assms(1) that by (simp add: bufferOk_def entryOk_def)
  have c: "checkReceivedPacket env s idx b \<noteq> Thrown e' x'" for s idx b e' x'
    using check_returning [of env s idx b, OF assms(2)] by auto
  from Thrown show ?thesis
    by (auto simp: handleReceivedPacket_def Let_def ne c split: option.splits if_splits)
qed


lemma step_first:
  assumes ok: "bufferOk r" and s: "subIndex (header p0) = 0"
  shows "packetBuffer (stateOf (handleReceivedPacket env r p0)) (index (header p0)) = None
         \<or> (\<exists>e. packetBuffer (stateOf (handleReceivedPacket env r p0)) (index (header p0)) = Some e
               \<and> entryCounter e = counter (header p0) \<and> packets e = [p0])"
proof (cases "packetBuffer r (index (header p0))")
  case None
  let ?new = "\<lparr>handled = False, entryCounter = counter (header p0), packets = [p0],
               totalDataBytes = length (payloadRawData (payload p0))\<rparr>"
  let ?r1 = "r\<lparr>packetBuffer := (packetBuffer r)(index (header p0) \<mapsto> ?new)\<rparr>"
  have "packetBuffer ?r1 (index (header p0)) = Some ?new" by simp
  from check_entry_at [OF this, of env] show ?thesis
    unfolding fresh_rule [OF None s] by auto
next
  case (Some b)
  then have ne: "packets b \<noteq> []" using ok by (simp add: bufferOk_def entryOk_def)
  show ?thesis
  proof (cases "entryCounter b = counter (header p0)")
    case True
    have "subIndex (header p0) \<noteq> subIndex (header (last (packets b))) + 1" using s by simp
    from gap_rule [OF Some True ne this, of env] show ?thesis by simp
  next
    case False
    let ?new = "\<lparr>handled = False, entryCounter = counter (header p0), packets = [p0],
                 totalDataBytes = length (payloadRawData (payload p0))\<rparr>"
    let ?r0 = "if \<not> handled b then r\<lparr>packetBuffer := (packetBuffer r)(index (header p0) := None)\<rparr>
               else r"
    let ?r1 = "?r0\<lparr>packetBuffer := (packetBuffer ?r0)(index (header p0) \<mapsto> ?new)\<rparr>"
    have h: "handleReceivedPacket env r p0 = checkReceivedPacket env ?r1 (index (header p0)) ?new"
      using Some False s by (simp add: handleReceivedPacket_def Let_def)
    have "packetBuffer ?r1 (index (header p0)) = Some ?new" by simp
    from check_entry_at [OF this, of env] show ?thesis
      unfolding h by auto
  qed
qed

lemma step_next:
  assumes st: "packetBuffer r1 (index (header p1)) = None
              \<or> (\<exists>e. packetBuffer r1 (index (header p1)) = Some e
                    \<and> entryCounter e = counter (header p1) \<and> packets e = ps)"
    and ne: "ps \<noteq> []"
    and nx: "subIndex (header p1) = subIndex (header (last ps)) + 1"
  shows "packetBuffer (stateOf (handleReceivedPacket env r1 p1)) (index (header p1)) = None
         \<or> (\<exists>e. packetBuffer (stateOf (handleReceivedPacket env r1 p1)) (index (header p1)) = Some e
               \<and> entryCounter e = counter (header p1) \<and> packets e = ps @ [p1])"
proof (cases "packetBuffer r1 (index (header p1))")
  case None
  have "subIndex (header p1) \<noteq> 0" using nx by simp
  with None show ?thesis by (simp add: handleReceivedPacket_def Let_def)
next
  case (Some e)
  with st have c: "entryCounter e = counter (header p1)" and p: "packets e = ps" by auto
  let ?e1 = "e\<lparr>packets := packets e @ [p1],
               totalDataBytes := totalDataBytes e + length (payloadRawData (payload p1))\<rparr>"
  let ?r = "r1\<lparr>packetBuffer := (packetBuffer r1)(index (header p1) \<mapsto> ?e1)\<rparr>"
  have h: "handleReceivedPacket env r1 p1 = checkReceivedPacket env ?r (index (header p1)) ?e1"
    using Some c p ne nx by (simp add: handleReceivedPacket_def Let_def)
  have "packetBuffer ?r (index (header p1)) = Some ?e1" by simp
  from check_entry_at [OF this, of env] show ?thesis
    unfolding h using c p by auto
qed

lemma step_gap:
  assumes st: "packetBuffer r2 (index (header p3)) = None
              \<or> (\<exists>e. packetBuffer r2 (index (header p3)) = Some e
                    \<and> entryCounter e = counter (header p3) \<and> packets e = ps)"
    and ne: "ps \<noteq> []"
    and z: "subIndex (header p3) \<noteq> 0"
    and nx: "subIndex (header p3) \<noteq> subIndex (header (last ps)) + 1"
  shows "\<exists>r3. handleReceivedPacket env r2 p3 = Returned r3
           \<and> packetBuffer r3 (index (header p3)) = None"
proof (cases "packetBuffer r2 (index (header p3))")
  case None
  with z show ?thesis by (simp add: handleReceivedPacket_def Let_def)
next
  case (Some e)
  with st have c: "entryCounter e = counter (header p3)" and p: "packets e = ps" by auto
  have "handleReceivedPacket env r2 p3
          = Returned (r2\<lparr>packetBuffer := (packetBuffer r2)(index (header p3) := None)\<rparr>)"
    by (rule gap_rule [OF Some c]) (use p ne nx in simp_all)
  then show ?thesis by simp
qed

lemma calls_callListeners_first:
  assumes "env (calls r) first data \<noteq> ConvertThrows"
  shows "take (Suc (length (calls r))) (calls (stateOf (callListeners env r (first # others) data)))
           = calls r @ [(first, data)]"
proof (cases "env (calls r) first data")
  case Returns
  from callListeners_state [of others env "r\<lparr>calls := calls r @ [(first, data)]\<rparr>" data]
  obtain k where
    "stateOf (callListeners env (r\<lparr>calls := calls r @ [(first, data)]\<rparr>) others data)
       = r\<lparr>calls := calls r @ [(first, data)]\<rparr>
           \<lparr>calls := calls (r\<lparr>calls := calls r @ [(first, data)]\<rparr>)
                       @ map (\<lambda>l. (l, data)) (take k others)\<rparr>"
    by blast
  then show ?thesis using Returns by simp
next
  case ConvertThrows
  with assms show ?thesis by simp
next
  case CallbackThrows
  then show ?thesis by simp
qed

section \<open>The payload of a datagram\<close>

lemma packetOf_long:
  "headerRawData h = take 20 data \<Longrightarrow> 20 \<le> length data \<Longrightarrow>
     packetOf h data = \<lparr>header = h, payload = \<lparr>payloadRawData = drop 20 data\<rparr>, rawData = data\<rparr>"
  by (simp add: packetOf_def sliceFrom_def)

lemma handleReceivedData_long:
  assumes "20 \<le> length data"
  shows "\<exists>h. parseReceivedPacketHeader data = Inr h
           \<and> packetLength h = unat (data ! 14) + 256 * unat (data ! 15)
           \<and> payloadLength h = int (packetLength h) - 20
           \<and> packetOf h data
               = \<lparr>header = h, payload = \<lparr>payloadRawData = drop 20 data\<rparr>, rawData = data\<rparr>
           \<and> handleReceivedData env r data = handleReceivedPacket env r (packetOf h data)"
  using assms
  by (simp add: parse_long [OF assms] handleReceivedData_def parseReceivedPacket_def
      packetOf_def sliceFrom_def)

lemma start_rule:
  assumes "subIndex (header p) = 0"
    and "\<forall>b. packetBuffer r (index (header p)) = Some b \<longrightarrow> entryCounter b \<noteq> counter (header p)"
  shows "handleReceivedPacket env r p =
           checkReceivedPacket env
             (r\<lparr>packetBuffer := (packetBuffer r)(index (header p) \<mapsto>
                   \<lparr>handled = False, entryCounter = counter (header p), packets = [p],
                    totalDataBytes = length (payloadRawData (payload p))\<rparr>)\<rparr>)
             (index (header p))
             \<lparr>handled = False, entryCounter = counter (header p), packets = [p],
              totalDataBytes = length (payloadRawData (payload p))\<rparr>"
  using assms by (auto simp: handleReceivedPacket_def Let_def split: option.splits)

lemma append_rule:
  assumes "packetBuffer r (index (header p)) = Some b"
    and "entryCounter b = counter (header p)"
    and "packets b \<noteq> []"
    and "subIndex (header p) = subIndex (header (last (packets b))) + 1"
  shows "handleReceivedPacket env r p =
           checkReceivedPacket env
             (r\<lparr>packetBuffer := (packetBuffer r)(index (header p) \<mapsto>
                   b\<lparr>packets := packets b @ [p],
                     totalDataBytes := totalDataBytes b + length (payloadRawData (payload p))\<rparr>)\<rparr>)
             (index (header p))
             (b\<lparr>packets := packets b @ [p],
                totalDataBytes := totalDataBytes b + length (payloadRawData (payload p))\<rparr>)"
  using assms by (simp add: handleReceivedPacket_def Let_def)

lemma entryActual_handled: "entryActual (e\<lparr>handled := True\<rparr>) = entryActual e"
  by (simp add: entryActual_def)

lemma handleReceivedData_bufferActual:
  assumes inv: "bufferActual r"
  shows "bufferActual (stateOf (handleReceivedData env r data))"
proof (cases "length data < 20")
  case True
  then show ?thesis
    using inv by (simp add: handleReceivedData_def parseReceivedPacket_def parse_short)
next
  case False
  then have l: "20 \<le> length data" by simp
  from handleReceivedData_long [OF l, of env r] obtain h where
    p: "packetOf h data
          = \<lparr>header = h, payload = \<lparr>payloadRawData = drop 20 data\<rparr>, rawData = data\<rparr>"
    and run: "handleReceivedData env r data = handleReceivedPacket env r (packetOf h data)"
    by blast
  let ?p = "packetOf h data"
  have "\<forall>j e. packetBuffer (stateOf (handleReceivedPacket env r ?p)) j = Some e \<longrightarrow> entryActual e"
  proof (rule handle_preserves [where P = "\<lambda>j e. entryActual e" and p = ?p and r = r])
    show "\<forall>j e. packetBuffer r j = Some e \<longrightarrow> entryActual e"
      using inv by (simp add: bufferActual_def)
    show "\<And>j e. entryActual e \<Longrightarrow> entryActual (e\<lparr>handled := True\<rparr>)"
      by (simp add: entryActual_handled)
    show "entryActual \<lparr>handled = False, entryCounter = counter (header ?p), packets = [?p],
            totalDataBytes = length (payloadRawData (payload ?p))\<rparr>"
      by (simp add: entryActual_def p)
    show "\<And>e. entryActual e \<Longrightarrow>
            entryActual (e\<lparr>packets := packets e @ [?p],
              totalDataBytes := totalDataBytes e + length (payloadRawData (payload ?p))\<rparr>)"
      by (simp add: entryActual_def p)
  qed
  then show ?thesis by (simp add: bufferActual_def run)
qed

section \<open>The example entries\<close>



lemmas parse_eval = parseReceivedPacketHeader_def exFragmentHeader_def readUInt8_def
  readUInt16LE_def readUInt32LE_def slice_def bindE_def parseHeaderFlags_def nth_append

lemma exOdd_parse:
  "parseReceivedPacketHeader exOddDatagram = Inr (header exOddPacket)"
  by (simp add: parse_eval exOddDatagram_def exOddPacket_def)

lemma exOddCont_parse:
  "parseReceivedPacketHeader exOddContDatagram = Inr (header exOddContPacket)"
  by (simp add: parse_eval exOddContDatagram_def exOddContPacket_def)

lemma exOdd_packetOf: "packetOf (header exOddPacket) exOddDatagram = exOddPacket"
  by (simp add: packetOf_def exOddPacket_def exOddDatagram_def exFragmentHeader_def sliceFrom_def)

lemma exOddCont_packetOf: "packetOf (header exOddContPacket) exOddContDatagram = exOddContPacket"
  by (simp add: packetOf_def exOddContPacket_def exOddContDatagram_def exFragmentHeader_def
      sliceFrom_def)

lemma exEntryOdd_data:
  "convertBufferEntriesToPacket (exEntryOdd h) = exRaw"
  by (simp add: convertBufferEntriesToPacket_concat exEntryOdd_def exFragment_def
      exOddContPacket_def exRaw_def)

lemma exEntryOdd_check:
  "checkReceivedPacket returning (exReceiver [50 \<mapsto> exEntryOdd False] []) 50 (exEntryOdd False)
     = Returned (exReceiver [50 \<mapsto> exEntryOdd True] [(exListener, exRaw)])"
proof -
  have h: "exEntryOdd False\<lparr>handled := True\<rparr> = exEntryOdd True"
    by (simp add: exEntryOdd_def)
  have t: "totalDataBytes (exEntryOdd False) = 300" by (simp add: exEntryOdd_def)
  show ?thesis
    by (simp add: checkReceivedPacket_cases setHandled_def exReceiver_def exListener_def
        returning_def exEntryOdd_data h t)
qed

lemma exEntrySingle_check:
  "checkReceivedPacket returning (exReceiver [50 \<mapsto> exEntrySingle False] []) 50
       (exEntrySingle False)
     = Returned (exReceiver [50 \<mapsto> exEntrySingle True] [(exListener, replicate 300 5)])"
proof -
  have c: "convertBufferEntriesToPacket (exEntrySingle False) = replicate 300 5"
    by (simp add: convertBufferEntriesToPacket_concat exEntrySingle_def exOddPacket_def)
  have h: "exEntrySingle False\<lparr>handled := True\<rparr> = exEntrySingle True"
    by (simp add: exEntrySingle_def)
  have t: "totalDataBytes (exEntrySingle False) = 300" by (simp add: exEntrySingle_def)
  show ?thesis
    by (simp add: checkReceivedPacket_cases setHandled_def exReceiver_def exListener_def
        returning_def c h t)
qed

section \<open>Runs of the receiver on the example datagrams\<close>

lemmas ex_eval = handleReceivedData_def parseReceivedPacket_def parseReceivedPacketHeader_def
  packetOf_def handleReceivedPacket_def checkReceivedPacket_cases setHandled_def
  convertBufferEntriesToPacket_concat returning_def
  exReceiver_def exListener_def exFragment_def exFragmentHeader_def exEntry0_def exEntry_def
  exRaw_def readUInt8_def readUInt16LE_def readUInt32LE_def slice_def sliceFrom_def bindE_def
  parseHeaderFlags_def nth_append Let_def

text \<open>The two datagrams of the message of 300 bytes, and the second fragment of the next message.\<close>

lemma exReceive_first:
  "handleReceivedData returning (exReceiver Map.empty []) (rawData (exFragment 0 7 1 200))
     = Returned (exReceiver [50 \<mapsto> exEntry0] [])"
  by (simp add: ex_eval)

lemma exReceive_second:
  "handleReceivedData returning (exReceiver [50 \<mapsto> exEntry0] []) (rawData (exFragment 1 7 2 100))
     = Returned (exReceiver [50 \<mapsto> exEntry True] [(exListener, exRaw)])"
  by (simp add: ex_eval)

lemma exReceive_late:
  "handleReceivedData returning (exReceiver [50 \<mapsto> exEntry True] [(exListener, exRaw)])
       (rawData (exFragment 1 8 3 100))
     = Returned (exReceiver [50 \<mapsto> exEntry True] [(exListener, exRaw), (exListener, exRaw)])"
  by (simp add: ex_eval)

lemma exReceiver_new: "addHandler newReceiver 50 \<lparr>byteLength = 300\<rparr> 1 = exReceiver Map.empty []"
  by (simp add: addHandler_def newReceiver_def exReceiver_def exListener_def)

text \<open>
  The packets that \<open>send\<close> makes of the message, received in their order: the listener
  is called once, with the 300 bytes.
\<close>

lemma scenario_send_receive:
  "receiveAll returning (addHandler newReceiver 50 \<lparr>byteLength = 300\<rparr> 1)
       [rawData (exFragment 0 7 1 200), rawData (exFragment 1 7 2 100)]
     = Returned (exReceiver [50 \<mapsto> exEntry True] [(exListener, exRaw)])"
  by (simp only: receiveAll.simps exReceiver_new exReceive_first exReceive_second Outcome.case)

text \<open>
  The same two datagrams and then the second fragment of message 8, whose first fragment
  is lost: the listener is called a second time with the bytes of message 7.
\<close>

lemma scenario_stale_delivery:
  "receiveAll returning (addHandler newReceiver 50 \<lparr>byteLength = 300\<rparr> 1)
       [rawData (exFragment 0 7 1 200), rawData (exFragment 1 7 2 100),
        rawData (exFragment 1 8 3 100)]
     = Returned (exReceiver [50 \<mapsto> exEntry True] [(exListener, exRaw), (exListener, exRaw)])"
  by (simp only: receiveAll.simps exReceiver_new exReceive_first exReceive_second exReceive_late
      Outcome.case)

text \<open>
  The first datagram and then a second fragment of 100 bytes whose header gives the packet
  length 20: the entry counts 300 bytes and the listener is called.
\<close>

lemma scenario_odd_lengths:
  "receiveAll returning (addHandler newReceiver 50 \<lparr>byteLength = 300\<rparr> 1)
       [rawData (exFragment 0 7 1 200), exOddContDatagram]
     = Returned (exReceiver [50 \<mapsto> exEntryOdd True] [(exListener, exRaw)])"
proof -
  have "handleReceivedData returning (exReceiver [50 \<mapsto> exEntry0] []) exOddContDatagram
          = Returned (exReceiver [50 \<mapsto> exEntryOdd True] [(exListener, exRaw)])"
    by (simp add: ex_eval exOddContDatagram_def exEntryOdd_def exOddContPacket_def)
  then show ?thesis
    by (simp only: receiveAll.simps exReceiver_new exReceive_first Outcome.case)
qed

section \<open>Claims\<close>

subsection \<open>C2: the counter of the sender\<close>

text \<open>
  C2 (the code differs): the claim is that the counter of successive messages runs through
  the whole 16-bit range, 65535 included, before it is 0 again. In \<open>Sender.send\<close> the
  counter is reset when it is at least 65535, before it is used: the counter of every
  message is below 65535, the message after the one with counter 65534 carries 0, and the
  counter runs modulo 65535.
\<close>

theorem takeCounter_skips_65535:
  "fst (takeCounter s) < 65535
   \<and> takeCounter \<lparr>counterNumber = 65534\<rparr> = (65534, \<lparr>counterNumber = 65535\<rparr>)
   \<and> takeCounter \<lparr>counterNumber = 65535\<rparr> = (0, \<lparr>counterNumber = 1\<rparr>)"
  by (simp add: takeCounter_def Let_def)

subsection \<open>C3: a datagram shorter than a header\<close>

text \<open>
  C3 (the code differs): the claim is that a datagram of fewer than 20 bytes is dropped
  without stopping the receiver. The branch for such a datagram is empty in
  \<open>parseReceivedPacketHeader\<close>, a read beyond the end of the datagram throws, and nothing
  between the read and the handler of the socket's message event catches the exception:
  \<open>handleReceivedData\<close> ends with a \<open>RangeError\<close> on every such datagram, whatever the
  listeners do, the receiver being as it was before the datagram.
\<close>

theorem handleReceivedData_short_throws:
  "length data < 20 \<Longrightarrow> handleReceivedData env r data = Thrown RangeError r"
  by (simp add: handleReceivedData_def parseReceivedPacket_def parse_short)

text \<open>C3, at a datagram of three bytes.\<close>

theorem handleReceivedData_short_throws_witness:
  "length [1, 2, 3 :: byte] < 20
   \<and> handleReceivedData returning newReceiver [1, 2, 3] = Thrown RangeError newReceiver"
  using handleReceivedData_short_throws [of "[1, 2, 3]" returning newReceiver] by simp

subsection \<open>C4: the offsets of flags and checksum\<close>

text \<open>
  C4 (amended): the header has 20 bytes, offsets 0 to 19. The encoder writes the flags at
  offset 18 and the checksum at offset 19, and the decoder reads them there; the numbers
  of a header that the encoder accepts are read back by the decoder from the encoded bytes,
  whatever payload follows.
\<close>

theorem header_flags_checksum_offsets:
  "(createPacketHeader packet = Inr bytes \<longrightarrow>
      length bytes = 20
      \<and> unat (bytes ! 18) = flags (header packet)
      \<and> unat (bytes ! 19) = checksum (header packet)
      \<and> (\<exists>h. parseReceivedPacketHeader (bytes @ rest) = Inr h
             \<and> msgType h = msgType (header packet) \<and> index h = index (header packet)
             \<and> subIndex h = subIndex (header packet)
             \<and> variableCount h = variableCount (header packet)
             \<and> packetLength h = packetLength (header packet)
             \<and> counter h = counter (header packet)
             \<and> flags h = flags (header packet) \<and> checksum h = checksum (header packet)))
   \<and> (parseReceivedPacketHeader data = Inr h' \<longrightarrow>
      20 \<le> length data \<and> headerRawData h' = take 20 data
      \<and> flags h' = unat (data ! 18) \<and> checksum h' = unat (data ! 19))"
proof (intro conjI impI)
  assume c: "createPacketHeader packet = Inr bytes"
  note p = createPacketHeader_fields [OF c]
  show "length bytes = 20" by (rule p(1))
  show "unat (bytes ! 18) = flags (header packet)"
    using p(8) by (auto simp: readUInt8_def split: if_splits)
  show "unat (bytes ! 19) = checksum (header packet)"
    using p(9) by (auto simp: readUInt8_def split: if_splits)
  show "\<exists>h. parseReceivedPacketHeader (bytes @ rest) = Inr h
             \<and> msgType h = msgType (header packet) \<and> index h = index (header packet)
             \<and> subIndex h = subIndex (header packet)
             \<and> variableCount h = variableCount (header packet)
             \<and> packetLength h = packetLength (header packet)
             \<and> counter h = counter (header packet)
             \<and> flags h = flags (header packet) \<and> checksum h = checksum (header packet)"
    by (simp add: parse_of_create [OF c])
next
  assume q: "parseReceivedPacketHeader data = Inr h'"
  then have l: "20 \<le> length data"
    using parse_short [of data] by (cases "length data < 20") auto
  from parse_long [OF l] q
  show "20 \<le> length data" "headerRawData h' = take 20 data"
    "flags h' = unat (data ! 18)" "checksum h' = unat (data ! 19)"
    using l by auto
qed

text \<open>C4, at a header with flags 1 and checksum 2.\<close>

theorem header_flags_checksum_offsets_witness:
  "createPacketHeader exHeaderPacket = Inr exHeaderBytes
   \<and> length exHeaderBytes = 20
   \<and> unat (exHeaderBytes ! 18) = flags (header exHeaderPacket)
   \<and> unat (exHeaderBytes ! 19) = checksum (header exHeaderPacket)
   \<and> parseReceivedPacketHeader exDatagram = Inr exParsedHeader
   \<and> flags exParsedHeader = unat (exDatagram ! 18)
   \<and> checksum exParsedHeader = unat (exDatagram ! 19)"
  using header_flags_checksum_offsets
    [of exHeaderPacket exHeaderBytes "[170, 187]" exDatagram exParsedHeader]
    exHeader_create exHeader_parse
  by simp

text \<open>
  C4 as stated fails: the encoded header has no offset 20, the byte at offset 19 is the
  checksum and not the flags, and the decoder takes neither the flags from offset 19 nor
  the checksum from offset 20, which is the first byte of the payload.
\<close>

theorem header_flags_checksum_offsets_counterexample:
  "createPacketHeader exHeaderPacket = Inr exHeaderBytes
   \<and> \<not> 20 < length exHeaderBytes
   \<and> flags (header exHeaderPacket) \<noteq> unat (exHeaderBytes ! 19)
   \<and> parseReceivedPacketHeader exDatagram = Inr exParsedHeader
   \<and> flags exParsedHeader \<noteq> unat (exDatagram ! 19)
   \<and> checksum exParsedHeader \<noteq> unat (exDatagram ! 20)"
  using exHeader_create exHeader_parse
  by (simp add: exHeaderPacket_def exHeaderBytes_def exDatagram_def exParsedHeader_def)

subsection \<open>C8: listen while listening\<close>

text \<open>
  C8: when the receiver has a socket, \<open>listen\<close> rejects and the receiver is as before:
  the same socket, handlers and packet buffer, and no socket is created.
\<close>

theorem listen_already_listening:
  "socket r = Some s \<Longrightarrow> listen outcome r = (RejectedAlreadyConnected, r)"
  by (simp add: listen_def)

text \<open>C8, at a receiver that listens already.\<close>

theorem listen_already_listening_witness:
  "socket (snd (listen BindCallback newReceiver)) = Some \<lparr>isBound = True, dataListeners = True\<rparr>
   \<and> listen BindCallback (snd (listen BindCallback newReceiver))
       = (RejectedAlreadyConnected, snd (listen BindCallback newReceiver))"
proof -
  have s: "socket (snd (listen BindCallback newReceiver))
             = Some \<lparr>isBound = True, dataListeners = True\<rparr>"
    by (simp add: listen_def newReceiver_def)
  show ?thesis
    using s listen_already_listening [OF s, of BindCallback] by simp
qed

subsection \<open>C7: splitting and putting together again\<close>

text \<open>
  C7: when the elements tile the raw buffer, the payloads of the packets of one message,
  put together in the order of their sub-indices (0, 1, 2 and so on, the order of the
  list), are the raw buffer, and every packet carries the counter of the call. The same
  holds of the packets that \<open>send\<close> hands to the transport, where the counter is the one
  that the call takes, and the receiver's \<open>convertBufferEntriesToPacket\<close> makes the raw
  buffer of them.
\<close>

theorem split_roundtrip:
  assumes "tiles 0 elements (length raw)"
  shows "concat (map (\<lambda>p. payloadRawData (payload p)) (splitPackets listId c raw elements)) = raw
     \<and> map (\<lambda>p. subIndex (header p)) (splitPackets listId c raw elements)
         = [0 ..< length (splitPackets listId c raw elements)]
     \<and> (\<forall>p \<in> set (splitPackets listId c raw elements). counter (header p) = c)
     \<and> (send s listId raw elements = (Inr ps, s') \<longrightarrow>
           concat (map (\<lambda>p. payloadRawData (payload p)) ps) = raw
           \<and> map (\<lambda>p. subIndex (header p)) ps = [0 ..< length ps]
           \<and> (\<forall>p \<in> set ps. counter (header p) = fst (takeCounter s))
           \<and> convertBufferEntriesToPacket
                \<lparr>handled = False, entryCounter = fst (takeCounter s), packets = ps,
                 totalDataBytes = length raw\<rparr> = raw)"
proof -
  let ?pl = "\<lambda>p. payloadRawData (payload p)"
  have e: "payloadRawData (payload (getEmptyPacket listId k)) = []" for k
    by (simp add: getEmptyPacket_def alloc_def)
  have A: "concat (map ?pl (splitPackets listId k raw elements)) = raw" for k
    using tiles_concat [OF assms]
    by (simp add: splitPackets_def splitLoop_payloads e)
  have B: "map (\<lambda>p. subIndex (header p)) (splitPackets listId k raw elements)
         = [0 ..< length (splitPackets listId k raw elements)]" for k
    using splitLoop_subIndex [of listId k raw elements "getEmptyPacket listId k"]
    by (simp add: splitPackets_def getEmptyPacket_def)
  have C: "\<forall>p \<in> set (splitPackets listId k raw elements). counter (header p) = k" for k
    using splitLoop_counter [of "getEmptyPacket listId k" k _ listId raw elements]
    by (simp add: splitPackets_def getEmptyPacket_def)
  have D: "concat (map ?pl ps) = raw
           \<and> map (\<lambda>p. subIndex (header p)) ps = [0 ..< length ps]
           \<and> (\<forall>p \<in> set ps. counter (header p) = fst (takeCounter s))
           \<and> convertBufferEntriesToPacket
                \<lparr>handled = False, entryCounter = fst (takeCounter s), packets = ps,
                 totalDataBytes = length raw\<rparr> = raw"
    if snd: "send s listId raw elements = (Inr ps, s')"
  proof -
    let ?k = "fst (takeCounter s)"
    from snd have cr: "createRawData (splitPackets listId ?k raw elements) = Inr ps"
      by (simp add: send_def split_def Let_def)
    note f = createRawData_fields [OF cr]
    have d1: "concat (map ?pl ps) = raw" using f A [of ?k] by simp
    have "length ps = length (splitPackets listId ?k raw elements)"
      using f by (metis length_map)
    then have d2: "map (\<lambda>p. subIndex (header p)) ps = [0 ..< length ps]"
      using f B [of ?k] by simp
    have "set (map (\<lambda>p. counter (header p)) ps) \<subseteq> {?k}"
      using f C [of ?k] by auto
    then have d3: "\<forall>p \<in> set ps. counter (header p) = ?k" by auto
    have d4: "convertBufferEntriesToPacket
                \<lparr>handled = False, entryCounter = ?k, packets = ps,
                 totalDataBytes = length raw\<rparr> = raw"
      using d1 by (simp add: convertBufferEntriesToPacket_concat)
    show ?thesis using d1 d2 d3 d4 by simp
  qed
  show ?thesis using A [of c] B [of c] C [of c] D by blast
qed

text \<open>C7, at the message of 300 bytes, which goes out in two packets.\<close>

theorem split_roundtrip_witness:
  "tiles 0 exElements (length exRaw)
   \<and> send \<lparr>counterNumber = 7\<rparr> 50 exRaw exElements = (Inr [exFragment 0 7 1 200, exFragment 1 7 2 100], \<lparr>counterNumber = 8\<rparr>)
   \<and> concat (map (\<lambda>p. payloadRawData (payload p)) [exFragment 0 7 1 200, exFragment 1 7 2 100]) = exRaw
   \<and> counter (header (exFragment 0 7 1 200)) = fst (takeCounter \<lparr>counterNumber = 7\<rparr>)
   \<and> counter (header (exFragment 1 7 2 100)) = fst (takeCounter \<lparr>counterNumber = 7\<rparr>)
   \<and> convertBufferEntriesToPacket
        \<lparr>handled = False, entryCounter = fst (takeCounter \<lparr>counterNumber = 7\<rparr>),
         packets = [exFragment 0 7 1 200, exFragment 1 7 2 100],
         totalDataBytes = length exRaw\<rparr> = exRaw
   \<and> concat (map (\<lambda>p. payloadRawData (payload p)) (splitPackets 50 7 exRaw exElements)) = exRaw"
proof -
  have t: "tiles 0 exElements (length exRaw)"
    by (simp add: exElements_def exRaw_def)
  show ?thesis
    using t exSend
      split_roundtrip [OF t, of 50 7 "\<lparr>counterNumber = 7\<rparr>" "[exFragment 0 7 1 200, exFragment 1 7 2 100]" "\<lparr>counterNumber = 8\<rparr>"]
    by simp
qed

subsection \<open>C10: a first element that is larger than a packet\<close>

text \<open>
  C10: when the first element has more than 256 bytes, the list of packets begins with the
  empty packet (sub-index 0, no variable, packet length 20, no payload), and the second
  packet has sub-index 1 and carries that element and nothing else. In general, when the
  current packet has a payload length of 0 and the next element has more than 256 bytes,
  the current packet is emitted as it is, followed by a packet with that element.
\<close>

theorem oversized_element_after_empty_packet:
  assumes "256 < byteLength (elemType e)"
  shows "take 2 (splitPackets listId c raw (e # es))
           = [getEmptyPacket listId c,
              addElement raw e (nextPacket listId c (getEmptyPacket listId c))]
     \<and> subIndex (header (getEmptyPacket listId c)) = 0
     \<and> variableCount (header (getEmptyPacket listId c)) = 0
     \<and> packetLength (header (getEmptyPacket listId c)) = 20
     \<and> payloadRawData (payload (getEmptyPacket listId c)) = []
     \<and> subIndex (header (addElement raw e (nextPacket listId c (getEmptyPacket listId c)))) = 1
     \<and> variableCount (header (addElement raw e (nextPacket listId c (getEmptyPacket listId c)))) = 1
     \<and> packetLength (header (addElement raw e (nextPacket listId c (getEmptyPacket listId c))))
         = 20 + byteLength (elemType e)
     \<and> payloadRawData (payload (addElement raw e (nextPacket listId c (getEmptyPacket listId c))))
         = slice raw (startIndex e) (startIndex e + byteLength (elemType e))
     \<and> (payloadLength (header packet) = 0 \<longrightarrow>
          take (length acc + 2) (splitLoop listId c raw (e # es) acc packet)
            = acc @ [packet, addElement raw e (nextPacket listId c packet)])"
proof -
  have G: "take (length acc' + 2) (splitLoop listId c raw (e # es) acc' p)
            = acc' @ [p, addElement raw e (nextPacket listId c p)]"
    if z: "payloadLength (header p) = 0" for acc' p
  proof -
    let ?q = "addElement raw e (nextPacket listId c p)"
    have big: "256 < payloadLength (header ?q)"
      using assms by (simp add: payloadLength_addElement payloadLength_nextPacket)
    have "splitLoop listId c raw (e # es) acc' p = acc' @ splitLoop listId c raw (e # es) [] p"
      by (rule splitLoop_prefix)
    also have "splitLoop listId c raw (e # es) [] p = p # splitLoop listId c raw es [] ?q"
      by (subst splitLoop_Cons) (use assms z in simp)
    finally have "take (length acc' + 2) (splitLoop listId c raw (e # es) acc' p)
                    = acc' @ p # take 1 (splitLoop listId c raw es [] ?q)"
      by simp
    then show ?thesis using splitLoop_full_packet [OF big] by simp
  qed
  have z0: "payloadLength (header (getEmptyPacket listId c)) = 0"
    by (simp add: getEmptyPacket_def)
  have H: "take 2 (splitPackets listId c raw (e # es))
           = [getEmptyPacket listId c,
              addElement raw e (nextPacket listId c (getEmptyPacket listId c))]"
    using G [OF z0, of "[]"] by (simp add: splitPackets_def numeral_2_eq_2 del: splitLoop.simps)
  have F: "subIndex (header (getEmptyPacket listId c)) = 0
     \<and> variableCount (header (getEmptyPacket listId c)) = 0
     \<and> packetLength (header (getEmptyPacket listId c)) = 20
     \<and> payloadRawData (payload (getEmptyPacket listId c)) = []
     \<and> subIndex (header (addElement raw e (nextPacket listId c (getEmptyPacket listId c)))) = 1
     \<and> variableCount (header (addElement raw e (nextPacket listId c (getEmptyPacket listId c)))) = 1
     \<and> packetLength (header (addElement raw e (nextPacket listId c (getEmptyPacket listId c))))
         = 20 + byteLength (elemType e)
     \<and> payloadRawData (payload (addElement raw e (nextPacket listId c (getEmptyPacket listId c))))
         = slice raw (startIndex e) (startIndex e + byteLength (elemType e))"
    by (simp add: getEmptyPacket_def nextPacket_def addElement_def Let_def alloc_def)
  show ?thesis
    using H F G [of packet acc] by (simp del: splitLoop.simps)
qed

text \<open>C10, at an element of 300 bytes.\<close>

theorem oversized_element_after_empty_packet_witness:
  "256 < byteLength (elemType \<lparr>startIndex = 0, elemType = \<lparr>byteLength = 300\<rparr>\<rparr>)
   \<and> take 2 (splitPackets 50 7 exRaw [\<lparr>startIndex = 0, elemType = \<lparr>byteLength = 300\<rparr>\<rparr>])
       = [getEmptyPacket 50 7,
          addElement exRaw \<lparr>startIndex = 0, elemType = \<lparr>byteLength = 300\<rparr>\<rparr>
            (nextPacket 50 7 (getEmptyPacket 50 7))]
   \<and> payloadLength (header (getEmptyPacket 50 7)) = 0
   \<and> take 2 (splitLoop 50 7 exRaw [\<lparr>startIndex = 0, elemType = \<lparr>byteLength = 300\<rparr>\<rparr>] []
                (getEmptyPacket 50 7))
       = [getEmptyPacket 50 7,
          addElement exRaw \<lparr>startIndex = 0, elemType = \<lparr>byteLength = 300\<rparr>\<rparr>
            (nextPacket 50 7 (getEmptyPacket 50 7))]"
proof -
  have b: "256 < byteLength (elemType \<lparr>startIndex = 0, elemType = \<lparr>byteLength = 300\<rparr>\<rparr>)"
    by simp
  have z: "payloadLength (header (getEmptyPacket 50 7)) = 0"
    by (simp add: getEmptyPacket_def)
  show ?thesis
    using b z
      oversized_element_after_empty_packet [OF b, of 50 7 exRaw "[]" "getEmptyPacket 50 7" "[]"]
    by (simp add: numeral_2_eq_2 del: splitLoop.simps)
qed

subsection \<open>C5: the completeness check\<close>




subsection \<open>C1: an entry that has been handled\<close>

text \<open>
  C1 (the code differs): the claim is that a handled entry is inert. In
  \<open>handleReceivedPacket\<close> the variable \<open>buffer\<close> still holds a handled entry when a
  fragment with another counter and a sub-index other than 0 arrives; the entry stays in
  the map, the completeness check runs on it once more, and the listeners of the list
  are called again with the data of the old entry: all of them when every call returns,
  and at least the first of them unless its conversion throws.
\<close>

theorem handled_entry_fires_again:
  assumes "packetBuffer r (index (header packet)) = Some buffer"
    and "handled buffer"
    and "entryCounter buffer \<noteq> counter (header packet)"
    and "subIndex (header packet) \<noteq> 0"
    and "filter (\<lambda>l. listID l = index (header packet)) (handlers r) = first # others"
    and "byteLength (dataType first) = totalDataBytes buffer"
  shows "handleReceivedPacket env r packet
           = callListeners env r (first # others) (convertBufferEntriesToPacket buffer)
     \<and> ((\<forall>cs l d. env cs l d = Returns) \<longrightarrow>
          handleReceivedPacket env r packet =
            Returned (r\<lparr>calls := calls r @
                   map (\<lambda>l. (l, convertBufferEntriesToPacket buffer)) (first # others)\<rparr>))
     \<and> (env (calls r) first (convertBufferEntriesToPacket buffer) \<noteq> ConvertThrows \<longrightarrow>
          take (Suc (length (calls r))) (calls (stateOf (handleReceivedPacket env r packet)))
            = calls r @ [(first, convertBufferEntriesToPacket buffer)])"
proof -
  let ?data = "convertBufferEntriesToPacket buffer"
  let ?c = "callListeners env r (first # others) ?data"
  have h: "buffer\<lparr>handled := True\<rparr> = buffer" using assms(2) by simp
  have s: "setHandled r1 (index (header packet)) buffer = r1" if "?c = Returned r1" for r1
  proof -
    from callListeners_Returned [OF that] have "packetBuffer r1 = packetBuffer r" by simp
    then show ?thesis using assms(1) by (simp add: setHandled_def h map_upd_triv)
  qed
  have "handleReceivedPacket env r packet
          = checkReceivedPacket env r (index (header packet)) buffer"
    using assms(1-4) by (simp add: handleReceivedPacket_def Let_def)
  also have "\<dots> = (case ?c of Thrown e r1 \<Rightarrow> Thrown e r1
                      | Returned r1 \<Rightarrow> Returned (setHandled r1 (index (header packet)) buffer))"
    using assms(5,6) by (simp add: checkReceivedPacket_cases del: callListeners.simps)
  also have "\<dots> = ?c"
    by (cases ?c) (simp_all add: s del: callListeners.simps)
  finally have A: "handleReceivedPacket env r packet = ?c" .
  have B: "handleReceivedPacket env r packet =
            Returned (r\<lparr>calls := calls r @ map (\<lambda>l. (l, ?data)) (first # others)\<rparr>)"
    if "\<forall>cs l d. env cs l d = Returns"
    unfolding A using that by (simp add: callListeners_returning [of env] del: callListeners.simps)
  have C: "take (Suc (length (calls r))) (calls (stateOf (handleReceivedPacket env r packet)))
            = calls r @ [(first, ?data)]"
    if "env (calls r) first ?data \<noteq> ConvertThrows"
    unfolding A using that by (rule calls_callListeners_first [of env r first])
  show ?thesis using A B C by blast
qed

text \<open>
  C1, at the handled entry of message 7 and the second fragment of message 8: the
  listener, called once before, is called again with the 300 bytes of message 7.
\<close>

theorem handled_entry_fires_again_witness:
  "packetBuffer (exReceiver [50 \<mapsto> exEntry True] [(exListener, exRaw)])
       (index (header (exFragment 1 8 3 100))) = Some (exEntry True)
   \<and> handled (exEntry True)
   \<and> entryCounter (exEntry True) \<noteq> counter (header (exFragment 1 8 3 100))
   \<and> subIndex (header (exFragment 1 8 3 100)) \<noteq> 0
   \<and> filter (\<lambda>l. listID l = index (header (exFragment 1 8 3 100)))
        (handlers (exReceiver [50 \<mapsto> exEntry True] [(exListener, exRaw)])) = exListener # []
   \<and> byteLength (dataType exListener) = totalDataBytes (exEntry True)
   \<and> handleReceivedPacket returning (exReceiver [50 \<mapsto> exEntry True] [(exListener, exRaw)])
        (exFragment 1 8 3 100)
       = Returned (exReceiver [50 \<mapsto> exEntry True] [(exListener, exRaw), (exListener, exRaw)])"
proof -
  let ?r = "exReceiver [50 \<mapsto> exEntry True] [(exListener, exRaw)]"
  have a1: "packetBuffer ?r (index (header (exFragment 1 8 3 100))) = Some (exEntry True)"
    by (simp add: exReceiver_def exFragment_def)
  have a2: "handled (exEntry True)" by (simp add: exEntry_def)
  have a3: "entryCounter (exEntry True) \<noteq> counter (header (exFragment 1 8 3 100))"
    by (simp add: exEntry_def exFragment_def)
  have a4: "subIndex (header (exFragment 1 8 3 100)) \<noteq> 0" by (simp add: exFragment_def)
  have a5: "filter (\<lambda>l. listID l = index (header (exFragment 1 8 3 100))) (handlers ?r)
              = exListener # []"
    by (simp add: exReceiver_def exFragment_def exListener_def)
  have a6: "byteLength (dataType exListener) = totalDataBytes (exEntry True)"
    by (simp add: exListener_def exEntry_def)
  have n: "\<forall>cs l d. returning cs l d = Returns" by (simp add: returning_def)
  have c: "convertBufferEntriesToPacket (exEntry True) = exRaw"
    by (simp add: convertBufferEntriesToPacket_concat exEntry_def exFragment_def exRaw_def)
  from handled_entry_fires_again [OF a1 a2 a3 a4 a5 a6, of returning] n
  have "handleReceivedPacket returning ?r (exFragment 1 8 3 100) =
            Returned (?r\<lparr>calls := calls ?r @
                   map (\<lambda>l. (l, convertBufferEntriesToPacket (exEntry True))) (exListener # [])\<rparr>)"
    by blast
  then have "handleReceivedPacket returning ?r (exFragment 1 8 3 100)
       = Returned (exReceiver [50 \<mapsto> exEntry True] [(exListener, exRaw), (exListener, exRaw)])"
    by (simp add: c exReceiver_def)
  then show ?thesis using a1 a2 a3 a4 a5 a6 by blast
qed

subsection \<open>C6: a gap in the sub-indices\<close>

text \<open>
  C6: when the stored entry of the list is not handled, has the counter of the incoming
  fragment, and the sub-index of the fragment is not the last stored one plus one, the
  entry is deleted and the fragment is dropped: the receiver is as before but for the
  deleted entry. After fragments with the sub-indices 0, 1 and 3 of one counter, whatever
  the buffer held before and whatever the listeners do, there is no entry for the list; a
  following fragment with sub-index 0 makes a new entry with that fragment alone, on which
  the completeness check then runs, and which is the stored entry afterwards when the list
  has a listener. When no call of a listener throws, each of the four steps returns.
\<close>

theorem gap_discards_entry:
  "(packetBuffer r (index (header f)) = Some b \<and> \<not> handled b
      \<and> entryCounter b = counter (header f) \<and> packets b \<noteq> []
      \<and> subIndex (header f) \<noteq> subIndex (header (last (packets b))) + 1
    \<longrightarrow> handleReceivedPacket env r f
          = Returned (r\<lparr>packetBuffer := (packetBuffer r)(index (header f) := None)\<rparr>))
   \<and> (bufferOk r0
      \<and> index (header p0) = L \<and> index (header p1) = L \<and> index (header p3) = L
      \<and> index (header q) = L
      \<and> counter (header p1) = counter (header p0) \<and> counter (header p3) = counter (header p0)
      \<and> subIndex (header p0) = 0 \<and> subIndex (header p1) = 1 \<and> subIndex (header p3) = 3
      \<and> subIndex (header q) = 0
    \<longrightarrow> (\<exists>o1 o2 r3.
           handleReceivedPacket env r0 p0 = o1
           \<and> handleReceivedPacket env (stateOf o1) p1 = o2
           \<and> handleReceivedPacket env (stateOf o2) p3 = Returned r3
           \<and> packetBuffer r3 L = None
           \<and> handleReceivedPacket env r3 q
               = checkReceivedPacket env
                   (r3\<lparr>packetBuffer := (packetBuffer r3)(L \<mapsto>
                         \<lparr>handled = False, entryCounter = counter (header q),
                          packets = [q],
                          totalDataBytes = length (payloadRawData (payload q))\<rparr>)\<rparr>)
                   L
                   \<lparr>handled = False, entryCounter = counter (header q), packets = [q],
                    totalDataBytes = length (payloadRawData (payload q))\<rparr>
           \<and> (filter (\<lambda>l. listID l = L) (handlers r0) \<noteq> [] \<longrightarrow>
                (\<exists>e. packetBuffer (stateOf (handleReceivedPacket env r3 q)) L = Some e
                   \<and> entryCounter e = counter (header q) \<and> packets e = [q]
                   \<and> totalDataBytes e = length (payloadRawData (payload q))))
           \<and> ((\<forall>cs l d. env cs l d = Returns) \<longrightarrow>
                (\<exists>r1 r2 r4. o1 = Returned r1 \<and> o2 = Returned r2
                   \<and> handleReceivedPacket env r3 q = Returned r4))))"
proof (intro conjI impI)
  assume "packetBuffer r (index (header f)) = Some b \<and> \<not> handled b
      \<and> entryCounter b = counter (header f) \<and> packets b \<noteq> []
      \<and> subIndex (header f) \<noteq> subIndex (header (last (packets b))) + 1"
  then show "handleReceivedPacket env r f
          = Returned (r\<lparr>packetBuffer := (packetBuffer r)(index (header f) := None)\<rparr>)"
    by (simp add: gap_rule)
next
  assume a: "bufferOk r0
      \<and> index (header p0) = L \<and> index (header p1) = L \<and> index (header p3) = L
      \<and> index (header q) = L
      \<and> counter (header p1) = counter (header p0) \<and> counter (header p3) = counter (header p0)
      \<and> subIndex (header p0) = 0 \<and> subIndex (header p1) = 1 \<and> subIndex (header p3) = 3
      \<and> subIndex (header q) = 0"
  let ?new = "\<lparr>handled = False, entryCounter = counter (header q), packets = [q],
               totalDataBytes = length (payloadRawData (payload q))\<rparr>"
  let ?o1 = "handleReceivedPacket env r0 p0"
  let ?o2 = "handleReceivedPacket env (stateOf ?o1) p1"
  from a have ok: "bufferOk r0" and s0: "subIndex (header p0) = 0" by simp_all
  from step_first [OF ok s0, of env] a have
    st1: "packetBuffer (stateOf ?o1) (index (header p1)) = None
              \<or> (\<exists>e. packetBuffer (stateOf ?o1) (index (header p1)) = Some e
                    \<and> entryCounter e = counter (header p1) \<and> packets e = [p0])"
    by auto
  have n1: "subIndex (header p1) = subIndex (header (last [p0])) + 1" using a by simp
  from step_next [OF st1 _ n1, of env] a have
    st2: "packetBuffer (stateOf ?o2) (index (header p3)) = None
              \<or> (\<exists>e. packetBuffer (stateOf ?o2) (index (header p3)) = Some e
                    \<and> entryCounter e = counter (header p3) \<and> packets e = [p0] @ [p1])"
    by auto
  have z3: "subIndex (header p3) \<noteq> 0" using a by simp
  have n3: "subIndex (header p3) \<noteq> subIndex (header (last ([p0] @ [p1]))) + 1" using a by simp
  from step_gap [OF st2 _ z3 n3, of env] a obtain r3 where
    h3: "handleReceivedPacket env (stateOf ?o2) p3 = Returned r3" and e3: "packetBuffer r3 L = None"
    by auto
  have "handlers (stateOf (handleReceivedPacket env (stateOf ?o2) p3)) = handlers r0"
    by (simp add: handlers_handleReceivedPacket)
  then have hs: "handlers r3 = handlers r0" by (simp add: h3)
  have iq: "index (header q) = L" and sq: "subIndex (header q) = 0" using a by simp_all
  have e3': "packetBuffer r3 (index (header q)) = None" using e3 iq by simp
  have h4: "handleReceivedPacket env r3 q
               = checkReceivedPacket env
                   (r3\<lparr>packetBuffer := (packetBuffer r3)(L \<mapsto> ?new)\<rparr>) L ?new"
    using fresh_rule [OF e3' sq, of env] iq by simp
  have kept: "\<exists>e. packetBuffer (stateOf (handleReceivedPacket env r3 q)) L = Some e
                   \<and> entryCounter e = counter (header q) \<and> packets e = [q]
                   \<and> totalDataBytes e = length (payloadRawData (payload q))"
    if l: "filter (\<lambda>l. listID l = L) (handlers r0) \<noteq> []"
  proof -
    let ?r = "r3\<lparr>packetBuffer := (packetBuffer r3)(L \<mapsto> ?new)\<rparr>"
    have b: "packetBuffer ?r L = Some ?new" by simp
    have f: "filter (\<lambda>l. listID l = L) (handlers ?r) \<noteq> []" using l hs by simp
    from check_entry_kept [OF b f, of env] show ?thesis unfolding h4 by auto
  qed
  have ret: "\<exists>r1 r2 r4. ?o1 = Returned r1 \<and> ?o2 = Returned r2
                   \<and> handleReceivedPacket env r3 q = Returned r4"
    if nt: "\<forall>cs l d. env cs l d = Returns"
  proof -
    from handle_returning [where p = p0, OF ok nt] obtain r1 where r1: "?o1 = Returned r1" by blast
    have ok1: "bufferOk (stateOf ?o1)" by (rule handleReceivedPacket_bufferOk [OF ok])
    from handle_returning [where p = p1, OF ok1 nt] obtain r2 where r2: "?o2 = Returned r2" by blast
    have ok2: "bufferOk (stateOf ?o2)" by (rule handleReceivedPacket_bufferOk [OF ok1])
    have "bufferOk (stateOf (handleReceivedPacket env (stateOf ?o2) p3))"
      by (rule handleReceivedPacket_bufferOk [OF ok2])
    then have ok3: "bufferOk r3" by (simp add: h3)
    from handle_returning [where p = q, OF ok3 nt] obtain r4 where
      "handleReceivedPacket env r3 q = Returned r4" by blast
    with r1 r2 show ?thesis by blast
  qed
  show "\<exists>o1 o2 r3.
           handleReceivedPacket env r0 p0 = o1
           \<and> handleReceivedPacket env (stateOf o1) p1 = o2
           \<and> handleReceivedPacket env (stateOf o2) p3 = Returned r3
           \<and> packetBuffer r3 L = None
           \<and> handleReceivedPacket env r3 q
               = checkReceivedPacket env
                   (r3\<lparr>packetBuffer := (packetBuffer r3)(L \<mapsto> ?new)\<rparr>) L ?new
           \<and> (filter (\<lambda>l. listID l = L) (handlers r0) \<noteq> [] \<longrightarrow>
                (\<exists>e. packetBuffer (stateOf (handleReceivedPacket env r3 q)) L = Some e
                   \<and> entryCounter e = counter (header q) \<and> packets e = [q]
                   \<and> totalDataBytes e = length (payloadRawData (payload q))))
           \<and> ((\<forall>cs l d. env cs l d = Returns) \<longrightarrow>
                (\<exists>r1 r2 r4. o1 = Returned r1 \<and> o2 = Returned r2
                   \<and> handleReceivedPacket env r3 q = Returned r4))"
    using h3 e3 h4 kept ret by blast
qed

text \<open>
  C6, at the entry with the first fragment of message 7 and a fragment with sub-index 3,
  and at the fragments 0, 1 and 3 of message 7 followed by the first fragment of message 8.
\<close>

theorem gap_discards_entry_witness:
  "(packetBuffer (exReceiver [50 \<mapsto> exEntry0] []) (index (header (exFragment 3 7 4 10)))
       = Some exEntry0
     \<and> \<not> handled exEntry0
     \<and> entryCounter exEntry0 = counter (header (exFragment 3 7 4 10))
     \<and> packets exEntry0 \<noteq> []
     \<and> subIndex (header (exFragment 3 7 4 10))
         \<noteq> subIndex (header (last (packets exEntry0))) + 1)
   \<and> handleReceivedPacket returning (exReceiver [50 \<mapsto> exEntry0] []) (exFragment 3 7 4 10)
       = Returned ((exReceiver [50 \<mapsto> exEntry0] [])
               \<lparr>packetBuffer := (packetBuffer (exReceiver [50 \<mapsto> exEntry0] []))
                  (index (header (exFragment 3 7 4 10)) := None)\<rparr>)
   \<and> (bufferOk (exReceiver Map.empty [])
      \<and> index (header (exFragment 0 7 1 200)) = 50 \<and> index (header (exFragment 1 7 2 50)) = 50
      \<and> index (header (exFragment 3 7 4 10)) = 50
      \<and> index (header (exFragment 0 8 5 200)) = 50
      \<and> counter (header (exFragment 1 7 2 50)) = counter (header (exFragment 0 7 1 200))
      \<and> counter (header (exFragment 3 7 4 10)) = counter (header (exFragment 0 7 1 200))
      \<and> subIndex (header (exFragment 0 7 1 200)) = 0 \<and> subIndex (header (exFragment 1 7 2 50)) = 1
      \<and> subIndex (header (exFragment 3 7 4 10)) = 3
      \<and> subIndex (header (exFragment 0 8 5 200)) = 0)
   \<and> filter (\<lambda>l. listID l = 50) (handlers (exReceiver Map.empty [])) \<noteq> []
   \<and> (\<exists>o1 o2 r3.
           handleReceivedPacket returning (exReceiver Map.empty []) (exFragment 0 7 1 200) = o1
           \<and> handleReceivedPacket returning (stateOf o1) (exFragment 1 7 2 50) = o2
           \<and> handleReceivedPacket returning (stateOf o2) (exFragment 3 7 4 10) = Returned r3
           \<and> packetBuffer r3 50 = None
           \<and> handleReceivedPacket returning r3 (exFragment 0 8 5 200)
               = checkReceivedPacket returning
                   (r3\<lparr>packetBuffer := (packetBuffer r3)(50 \<mapsto>
                         \<lparr>handled = False,
                          entryCounter = counter (header (exFragment 0 8 5 200)),
                          packets = [exFragment 0 8 5 200],
                          totalDataBytes
                            = length (payloadRawData (payload (exFragment 0 8 5 200)))\<rparr>)\<rparr>)
                   50
                   \<lparr>handled = False,
                          entryCounter = counter (header (exFragment 0 8 5 200)),
                          packets = [exFragment 0 8 5 200],
                          totalDataBytes
                            = length (payloadRawData (payload (exFragment 0 8 5 200)))\<rparr>
           \<and> (\<exists>e. packetBuffer (stateOf (handleReceivedPacket returning r3 (exFragment 0 8 5 200))) 50
                       = Some e
                   \<and> entryCounter e = counter (header (exFragment 0 8 5 200))
                   \<and> packets e = [exFragment 0 8 5 200]
                   \<and> totalDataBytes e
                       = length (payloadRawData (payload (exFragment 0 8 5 200))))
           \<and> (\<exists>r1 r2 r4. o1 = Returned r1 \<and> o2 = Returned r2
                   \<and> handleReceivedPacket returning r3 (exFragment 0 8 5 200) = Returned r4))"
proof -
  have H1: "packetBuffer (exReceiver [50 \<mapsto> exEntry0] []) (index (header (exFragment 3 7 4 10)))
       = Some exEntry0
     \<and> \<not> handled exEntry0
     \<and> entryCounter exEntry0 = counter (header (exFragment 3 7 4 10))
     \<and> packets exEntry0 \<noteq> []
     \<and> subIndex (header (exFragment 3 7 4 10))
         \<noteq> subIndex (header (last (packets exEntry0))) + 1"
    by (simp add: exReceiver_def exEntry0_def exFragment_def)
  have H2: "bufferOk (exReceiver Map.empty [])
      \<and> index (header (exFragment 0 7 1 200)) = 50 \<and> index (header (exFragment 1 7 2 50)) = 50
      \<and> index (header (exFragment 3 7 4 10)) = 50
      \<and> index (header (exFragment 0 8 5 200)) = 50
      \<and> counter (header (exFragment 1 7 2 50)) = counter (header (exFragment 0 7 1 200))
      \<and> counter (header (exFragment 3 7 4 10)) = counter (header (exFragment 0 7 1 200))
      \<and> subIndex (header (exFragment 0 7 1 200)) = 0 \<and> subIndex (header (exFragment 1 7 2 50)) = 1
      \<and> subIndex (header (exFragment 3 7 4 10)) = 3
      \<and> subIndex (header (exFragment 0 8 5 200)) = 0"
    by (simp add: bufferOk_def exReceiver_def exFragment_def)
  have F: "filter (\<lambda>l. listID l = 50) (handlers (exReceiver Map.empty [])) \<noteq> []"
    by (simp add: exReceiver_def exListener_def)
  have N: "\<forall>cs l d. returning cs l d = Returns"
    by (simp add: returning_def)
  note T = gap_discards_entry
    [of "exReceiver [50 \<mapsto> exEntry0] []" "exFragment 3 7 4 10" exEntry0 returning
      "exReceiver Map.empty []" "exFragment 0 7 1 200" 50 "exFragment 1 7 2 50"
      "exFragment 3 7 4 10" "exFragment 0 8 5 200"]
  from T H1 have C1: "handleReceivedPacket returning (exReceiver [50 \<mapsto> exEntry0] []) (exFragment 3 7 4 10)
       = Returned ((exReceiver [50 \<mapsto> exEntry0] [])
               \<lparr>packetBuffer := (packetBuffer (exReceiver [50 \<mapsto> exEntry0] []))
                  (index (header (exFragment 3 7 4 10)) := None)\<rparr>)"
    by blast
  from T H2 have C2: "\<exists>o1 o2 r3.
           handleReceivedPacket returning (exReceiver Map.empty []) (exFragment 0 7 1 200) = o1
           \<and> handleReceivedPacket returning (stateOf o1) (exFragment 1 7 2 50) = o2
           \<and> handleReceivedPacket returning (stateOf o2) (exFragment 3 7 4 10) = Returned r3
           \<and> packetBuffer r3 50 = None
           \<and> handleReceivedPacket returning r3 (exFragment 0 8 5 200)
               = checkReceivedPacket returning
                   (r3\<lparr>packetBuffer := (packetBuffer r3)(50 \<mapsto>
                         \<lparr>handled = False,
                          entryCounter = counter (header (exFragment 0 8 5 200)),
                          packets = [exFragment 0 8 5 200],
                          totalDataBytes
                            = length (payloadRawData (payload (exFragment 0 8 5 200)))\<rparr>)\<rparr>)
                   50
                   \<lparr>handled = False,
                          entryCounter = counter (header (exFragment 0 8 5 200)),
                          packets = [exFragment 0 8 5 200],
                          totalDataBytes
                            = length (payloadRawData (payload (exFragment 0 8 5 200)))\<rparr>
           \<and> (filter (\<lambda>l. listID l = 50) (handlers (exReceiver Map.empty [])) \<noteq> [] \<longrightarrow>
                (\<exists>e. packetBuffer (stateOf (handleReceivedPacket returning r3 (exFragment 0 8 5 200))) 50
                       = Some e
                   \<and> entryCounter e = counter (header (exFragment 0 8 5 200))
                   \<and> packets e = [exFragment 0 8 5 200]
                   \<and> totalDataBytes e
                       = length (payloadRawData (payload (exFragment 0 8 5 200)))))
           \<and> ((\<forall>cs l d. returning cs l d = Returns) \<longrightarrow>
                (\<exists>r1 r2 r4. o1 = Returned r1 \<and> o2 = Returned r2
                   \<and> handleReceivedPacket returning r3 (exFragment 0 8 5 200) = Returned r4))"
    by blast
  show ?thesis using H1 C1 H2 F N C2 by blast
qed

subsection \<open>C9: the packet length of the header is not used\<close>

text \<open>
  C9: of a datagram of at least 20 bytes the receiver takes the bytes from offset 20 on as
  the payload, whatever the header gives as packet length, and hands the packet with this
  payload to \<open>handleReceivedPacket\<close>. A first fragment that finds no entry of its counter
  makes an entry whose \<open>totalDataBytes\<close> is the length of the datagram less 20; a fragment
  that continues the stored entry adds the length of its datagram less 20 to
  \<open>totalDataBytes\<close> of that entry; in both cases the result of the datagram is that of the
  completeness check on this entry, and the check compares \<open>totalDataBytes\<close> of the entry
  with the expected length of the first listener. So when \<open>totalDataBytes\<close> of every
  stored entry is the sum of the lengths of its datagrams, 20 off each, it is so again
  after any datagram.
\<close>

theorem payload_is_datagram_after_header:
  "(20 \<le> length data \<longrightarrow>
      (\<exists>h. parseReceivedPacketHeader data = Inr h
         \<and> packetLength h = unat (data ! 14) + 256 * unat (data ! 15)
         \<and> payloadLength h = int (packetLength h) - 20
         \<and> packetOf h data
             = \<lparr>header = h, payload = \<lparr>payloadRawData = drop 20 data\<rparr>, rawData = data\<rparr>
         \<and> handleReceivedData env r data = handleReceivedPacket env r (packetOf h data)
         \<and> (subIndex h = 0
              \<and> (\<forall>b. packetBuffer r (index h) = Some b \<longrightarrow> entryCounter b \<noteq> counter h)
            \<longrightarrow> handleReceivedData env r data =
                  checkReceivedPacket env
                    (r\<lparr>packetBuffer := (packetBuffer r)(index h \<mapsto>
                          \<lparr>handled = False, entryCounter = counter h,
                           packets = [packetOf h data],
                           totalDataBytes = length data - 20\<rparr>)\<rparr>)
                    (index h)
                    \<lparr>handled = False, entryCounter = counter h, packets = [packetOf h data],
                     totalDataBytes = length data - 20\<rparr>)
         \<and> (\<forall>b. packetBuffer r (index h) = Some b \<and> entryCounter b = counter h
                  \<and> packets b \<noteq> []
                  \<and> subIndex h = subIndex (header (last (packets b))) + 1
            \<longrightarrow> handleReceivedData env r data =
                  checkReceivedPacket env
                    (r\<lparr>packetBuffer := (packetBuffer r)(index h \<mapsto>
                          b\<lparr>packets := packets b @ [packetOf h data],
                            totalDataBytes := totalDataBytes b + (length data - 20)\<rparr>)\<rparr>)
                    (index h)
                    (b\<lparr>packets := packets b @ [packetOf h data],
                       totalDataBytes := totalDataBytes b + (length data - 20)\<rparr>))))
   \<and> (filter (\<lambda>l. listID l = idx) (handlers s) = first # others \<longrightarrow>
        checkReceivedPacket env s idx buffer =
          (if byteLength (dataType first) = totalDataBytes buffer
           then (case callListeners env s (first # others) (convertBufferEntriesToPacket buffer) of
                   Thrown e s1 \<Rightarrow> Thrown e s1
                 | Returned s1 \<Rightarrow> Returned (setHandled s1 idx buffer))
           else Returned s))
   \<and> (bufferActual r \<longrightarrow> bufferActual (stateOf (handleReceivedData env r data)))"
proof (intro conjI impI)
  assume l: "20 \<le> length data"
  from handleReceivedData_long [OF l, of env r] obtain h where
    ph: "parseReceivedPacketHeader data = Inr h"
    and pl: "packetLength h = unat (data ! 14) + 256 * unat (data ! 15)"
    and py: "payloadLength h = int (packetLength h) - 20"
    and p: "packetOf h data
          = \<lparr>header = h, payload = \<lparr>payloadRawData = drop 20 data\<rparr>, rawData = data\<rparr>"
    and run: "handleReceivedData env r data = handleReceivedPacket env r (packetOf h data)"
    by blast
  let ?p = "packetOf h data"
  have hp: "header ?p = h" and n: "length (payloadRawData (payload ?p)) = length data - 20"
    by (simp_all add: p)
  have S: "handleReceivedData env r data =
                  checkReceivedPacket env
                    (r\<lparr>packetBuffer := (packetBuffer r)(index h \<mapsto>
                          \<lparr>handled = False, entryCounter = counter h, packets = [?p],
                           totalDataBytes = length data - 20\<rparr>)\<rparr>)
                    (index h)
                    \<lparr>handled = False, entryCounter = counter h, packets = [?p],
                     totalDataBytes = length data - 20\<rparr>"
    if "subIndex h = 0
        \<and> (\<forall>b. packetBuffer r (index h) = Some b \<longrightarrow> entryCounter b \<noteq> counter h)"
  proof -
    from that have a: "subIndex (header ?p) = 0"
      and b: "\<forall>b. packetBuffer r (index (header ?p)) = Some b
                \<longrightarrow> entryCounter b \<noteq> counter (header ?p)"
      by (simp_all add: hp)
    show ?thesis
      unfolding run using start_rule [OF a b, of env] by (simp only: hp n)
  qed
  have A: "\<forall>b. packetBuffer r (index h) = Some b \<and> entryCounter b = counter h
                  \<and> packets b \<noteq> []
                  \<and> subIndex h = subIndex (header (last (packets b))) + 1
            \<longrightarrow> handleReceivedData env r data =
                  checkReceivedPacket env
                    (r\<lparr>packetBuffer := (packetBuffer r)(index h \<mapsto>
                          b\<lparr>packets := packets b @ [?p],
                            totalDataBytes := totalDataBytes b + (length data - 20)\<rparr>)\<rparr>)
                    (index h)
                    (b\<lparr>packets := packets b @ [?p],
                       totalDataBytes := totalDataBytes b + (length data - 20)\<rparr>)"
  proof (intro allI impI)
    fix b
    assume h: "packetBuffer r (index h) = Some b \<and> entryCounter b = counter h
                  \<and> packets b \<noteq> []
                  \<and> subIndex h = subIndex (header (last (packets b))) + 1"
    then have a1: "packetBuffer r (index (header ?p)) = Some b"
      and a2: "entryCounter b = counter (header ?p)"
      and a3: "packets b \<noteq> []"
      and a4: "subIndex (header ?p) = subIndex (header (last (packets b))) + 1"
      by (simp_all add: hp)
    show "handleReceivedData env r data =
                  checkReceivedPacket env
                    (r\<lparr>packetBuffer := (packetBuffer r)(index h \<mapsto>
                          b\<lparr>packets := packets b @ [?p],
                            totalDataBytes := totalDataBytes b + (length data - 20)\<rparr>)\<rparr>)
                    (index h)
                    (b\<lparr>packets := packets b @ [?p],
                       totalDataBytes := totalDataBytes b + (length data - 20)\<rparr>)"
      unfolding run using append_rule [OF a1 a2 a3 a4, of env] by (simp only: hp n)
  qed
  show "\<exists>h. parseReceivedPacketHeader data = Inr h
         \<and> packetLength h = unat (data ! 14) + 256 * unat (data ! 15)
         \<and> payloadLength h = int (packetLength h) - 20
         \<and> packetOf h data
             = \<lparr>header = h, payload = \<lparr>payloadRawData = drop 20 data\<rparr>, rawData = data\<rparr>
         \<and> handleReceivedData env r data = handleReceivedPacket env r (packetOf h data)
         \<and> (subIndex h = 0
              \<and> (\<forall>b. packetBuffer r (index h) = Some b \<longrightarrow> entryCounter b \<noteq> counter h)
            \<longrightarrow> handleReceivedData env r data =
                  checkReceivedPacket env
                    (r\<lparr>packetBuffer := (packetBuffer r)(index h \<mapsto>
                          \<lparr>handled = False, entryCounter = counter h,
                           packets = [packetOf h data],
                           totalDataBytes = length data - 20\<rparr>)\<rparr>)
                    (index h)
                    \<lparr>handled = False, entryCounter = counter h, packets = [packetOf h data],
                     totalDataBytes = length data - 20\<rparr>)
         \<and> (\<forall>b. packetBuffer r (index h) = Some b \<and> entryCounter b = counter h
                  \<and> packets b \<noteq> []
                  \<and> subIndex h = subIndex (header (last (packets b))) + 1
            \<longrightarrow> handleReceivedData env r data =
                  checkReceivedPacket env
                    (r\<lparr>packetBuffer := (packetBuffer r)(index h \<mapsto>
                          b\<lparr>packets := packets b @ [packetOf h data],
                            totalDataBytes := totalDataBytes b + (length data - 20)\<rparr>)\<rparr>)
                    (index h)
                    (b\<lparr>packets := packets b @ [packetOf h data],
                       totalDataBytes := totalDataBytes b + (length data - 20)\<rparr>))"
    using ph pl py p run S A by blast
next
  assume "filter (\<lambda>l. listID l = idx) (handlers s) = first # others"
  then show "checkReceivedPacket env s idx buffer =
          (if byteLength (dataType first) = totalDataBytes buffer
           then (case callListeners env s (first # others) (convertBufferEntriesToPacket buffer) of
                   Thrown e s1 \<Rightarrow> Thrown e s1
                 | Returned s1 \<Rightarrow> Returned (setHandled s1 idx buffer))
           else Returned s)"
    by (simp add: checkReceivedPacket_cases del: callListeners.simps)
next
  assume "bufferActual r"
  then show "bufferActual (stateOf (handleReceivedData env r data))"
    by (rule handleReceivedData_bufferActual)
qed

text \<open>
  C9, at a datagram of 320 bytes and at a second fragment of 120 bytes, the headers of
  both giving the packet length 20: the first makes an entry that counts 300 bytes, the
  second brings the entry of message 7 from 200 to 300 bytes, and each time the listener
  that expects 300 bytes is called.
\<close>

theorem payload_is_datagram_after_header_witness:
  "20 \<le> length exOddDatagram
   \<and> parseReceivedPacketHeader exOddDatagram = Inr (header exOddPacket)
   \<and> packetLength (header exOddPacket) = 20
   \<and> length exOddDatagram - 20 = 300
   \<and> subIndex (header exOddPacket) = 0
   \<and> packetBuffer (exReceiver Map.empty []) (index (header exOddPacket)) = None
   \<and> handleReceivedData returning (exReceiver Map.empty []) exOddDatagram
       = checkReceivedPacket returning (exReceiver [50 \<mapsto> exEntrySingle False] []) 50
           (exEntrySingle False)
   \<and> totalDataBytes (exEntrySingle False) = 300
   \<and> handleReceivedData returning (exReceiver Map.empty []) exOddDatagram
       = Returned (exReceiver [50 \<mapsto> exEntrySingle True] [(exListener, replicate 300 5)])
   \<and> 20 \<le> length exOddContDatagram
   \<and> parseReceivedPacketHeader exOddContDatagram = Inr (header exOddContPacket)
   \<and> packetLength (header exOddContPacket) = 20
   \<and> payloadLength (header exOddContPacket) = 0
   \<and> length exOddContDatagram - 20 = 100
   \<and> packetOf (header exOddContPacket) exOddContDatagram = exOddContPacket
   \<and> packetBuffer (exReceiver [50 \<mapsto> exEntry0] []) (index (header exOddContPacket)) = Some exEntry0
   \<and> entryCounter exEntry0 = counter (header exOddContPacket)
   \<and> packets exEntry0 \<noteq> []
   \<and> subIndex (header exOddContPacket) = subIndex (header (last (packets exEntry0))) + 1
   \<and> totalDataBytes exEntry0 = 200
   \<and> handleReceivedData returning (exReceiver [50 \<mapsto> exEntry0] []) exOddContDatagram
       = checkReceivedPacket returning (exReceiver [50 \<mapsto> exEntryOdd False] []) 50
           (exEntryOdd False)
   \<and> totalDataBytes (exEntryOdd False) = 300
   \<and> filter (\<lambda>l. listID l = 50) (handlers (exReceiver [50 \<mapsto> exEntryOdd False] []))
       = exListener # []
   \<and> byteLength (dataType exListener) = 300
   \<and> handleReceivedData returning (exReceiver [50 \<mapsto> exEntry0] []) exOddContDatagram
       = Returned (exReceiver [50 \<mapsto> exEntryOdd True] [(exListener, exRaw)])
   \<and> bufferActual (exReceiver [50 \<mapsto> exEntry0] [])
   \<and> bufferActual (exReceiver [50 \<mapsto> exEntryOdd True] [(exListener, exRaw)])"
proof -
  let ?r = "exReceiver [50 \<mapsto> exEntry0] []"
  let ?s = "exReceiver [50 \<mapsto> exEntryOdd False] []"
  let ?h = "header exOddContPacket"
  have l: "20 \<le> length exOddContDatagram" and n: "length exOddContDatagram - 20 = 100"
    by (simp_all add: exOddContDatagram_def exFragmentHeader_def)
  have hd: "packetLength ?h = 20" "payloadLength ?h = 0" "index ?h = 50" "counter ?h = 7"
    "subIndex ?h = 1"
    by (simp_all add: exOddContPacket_def)
  have b: "packetBuffer ?r (index ?h) = Some exEntry0"
    by (simp add: exReceiver_def hd)
  have e: "entryCounter exEntry0 = counter ?h" "packets exEntry0 \<noteq> []"
    "subIndex ?h = subIndex (header (last (packets exEntry0))) + 1"
    "totalDataBytes exEntry0 = 200"
    by (simp_all add: exEntry0_def exFragment_def hd)
  have f: "filter (\<lambda>l. listID l = 50) (handlers ?s) = exListener # []"
    by (simp add: exReceiver_def exListener_def)
  have t: "totalDataBytes (exEntryOdd False) = 300" "byteLength (dataType exListener) = 300"
    by (simp_all add: exEntryOdd_def exListener_def)
  have a: "bufferActual ?r"
    by (simp add: bufferActual_def entryActual_def exReceiver_def exEntry0_def exFragment_def
        exFragmentHeader_def)
  have B: "exEntry0\<lparr>packets := packets exEntry0 @ [exOddContPacket],
              totalDataBytes := totalDataBytes exEntry0 + (length exOddContDatagram - 20)\<rparr>
           = exEntryOdd False"
    by (simp add: n exEntry0_def exEntryOdd_def)
  have R: "?r\<lparr>packetBuffer := (packetBuffer ?r)(50 \<mapsto> exEntryOdd False)\<rparr> = ?s"
    by (simp add: exReceiver_def)
  note T = payload_is_datagram_after_header
    [of exOddContDatagram returning ?r 50 ?s exListener "[]" "exEntryOdd False"]
  from T l obtain h where
    ph: "parseReceivedPacketHeader exOddContDatagram = Inr h"
    and ap: "\<forall>b. packetBuffer ?r (index h) = Some b \<and> entryCounter b = counter h
                  \<and> packets b \<noteq> []
                  \<and> subIndex h = subIndex (header (last (packets b))) + 1
            \<longrightarrow> handleReceivedData returning ?r exOddContDatagram =
                  checkReceivedPacket returning
                    (?r\<lparr>packetBuffer := (packetBuffer ?r)(index h \<mapsto>
                          b\<lparr>packets := packets b @ [packetOf h exOddContDatagram],
                            totalDataBytes := totalDataBytes b + (length exOddContDatagram - 20)\<rparr>)\<rparr>)
                    (index h)
                    (b\<lparr>packets := packets b @ [packetOf h exOddContDatagram],
                       totalDataBytes := totalDataBytes b + (length exOddContDatagram - 20)\<rparr>)"
    by blast
  from ph have h: "h = ?h" by (simp add: exOddCont_parse)
  from ap b e(1,2,3)
  have "handleReceivedData returning ?r exOddContDatagram =
          checkReceivedPacket returning
            (?r\<lparr>packetBuffer := (packetBuffer ?r)(index ?h \<mapsto>
                  exEntry0\<lparr>packets := packets exEntry0 @ [packetOf ?h exOddContDatagram],
                    totalDataBytes := totalDataBytes exEntry0 + (length exOddContDatagram - 20)\<rparr>)\<rparr>)
            (index ?h)
            (exEntry0\<lparr>packets := packets exEntry0 @ [packetOf ?h exOddContDatagram],
               totalDataBytes := totalDataBytes exEntry0 + (length exOddContDatagram - 20)\<rparr>)"
    unfolding h by blast
  then have run: "handleReceivedData returning ?r exOddContDatagram
                    = checkReceivedPacket returning ?s 50 (exEntryOdd False)"
    by (simp only: exOddCont_packetOf B R hd(3))
  have res: "handleReceivedData returning ?r exOddContDatagram
       = Returned (exReceiver [50 \<mapsto> exEntryOdd True] [(exListener, exRaw)])"
    by (simp only: run exEntryOdd_check)
  from T a have "bufferActual (stateOf (handleReceivedData returning ?r exOddContDatagram))"
    by blast
  then have a': "bufferActual (exReceiver [50 \<mapsto> exEntryOdd True] [(exListener, exRaw)])"
    by (simp only: res stateOf.simps)
  let ?r0 = "exReceiver Map.empty []"
  let ?s0 = "exReceiver [50 \<mapsto> exEntrySingle False] []"
  let ?h0 = "header exOddPacket"
  have l0: "20 \<le> length exOddDatagram" and n0: "length exOddDatagram - 20 = 300"
    by (simp_all add: exOddDatagram_def exFragmentHeader_def)
  have hd0: "packetLength ?h0 = 20" "subIndex ?h0 = 0" "index ?h0 = 50" "counter ?h0 = 9"
    by (simp_all add: exOddPacket_def)
  have b0: "packetBuffer ?r0 (index ?h0) = None"
    by (simp add: exReceiver_def)
  have t0: "totalDataBytes (exEntrySingle False) = 300"
    by (simp add: exEntrySingle_def)
  have B0: "\<lparr>handled = False, entryCounter = 9, packets = [exOddPacket],
             totalDataBytes = length exOddDatagram - 20\<rparr> = exEntrySingle False"
    by (simp add: n0 exEntrySingle_def)
  have R0: "?r0\<lparr>packetBuffer := (packetBuffer ?r0)(50 \<mapsto> exEntrySingle False)\<rparr> = ?s0"
    by (simp add: exReceiver_def)
  note T0 = payload_is_datagram_after_header
    [of exOddDatagram returning ?r0 50 ?s0 exListener "[]" "exEntrySingle False"]
  from T0 l0 obtain h0 where
    ph0: "parseReceivedPacketHeader exOddDatagram = Inr h0"
    and st: "subIndex h0 = 0
              \<and> (\<forall>b. packetBuffer ?r0 (index h0) = Some b \<longrightarrow> entryCounter b \<noteq> counter h0)
            \<longrightarrow> handleReceivedData returning ?r0 exOddDatagram =
                  checkReceivedPacket returning
                    (?r0\<lparr>packetBuffer := (packetBuffer ?r0)(index h0 \<mapsto>
                          \<lparr>handled = False, entryCounter = counter h0,
                           packets = [packetOf h0 exOddDatagram],
                           totalDataBytes = length exOddDatagram - 20\<rparr>)\<rparr>)
                    (index h0)
                    \<lparr>handled = False, entryCounter = counter h0,
                     packets = [packetOf h0 exOddDatagram],
                     totalDataBytes = length exOddDatagram - 20\<rparr>"
    by blast
  from ph0 have h0: "h0 = ?h0" by (simp add: exOdd_parse)
  from st hd0(2) b0
  have "handleReceivedData returning ?r0 exOddDatagram =
                  checkReceivedPacket returning
                    (?r0\<lparr>packetBuffer := (packetBuffer ?r0)(index ?h0 \<mapsto>
                          \<lparr>handled = False, entryCounter = counter ?h0,
                           packets = [packetOf ?h0 exOddDatagram],
                           totalDataBytes = length exOddDatagram - 20\<rparr>)\<rparr>)
                    (index ?h0)
                    \<lparr>handled = False, entryCounter = counter ?h0,
                     packets = [packetOf ?h0 exOddDatagram],
                     totalDataBytes = length exOddDatagram - 20\<rparr>"
    unfolding h0 by simp
  then have run0: "handleReceivedData returning ?r0 exOddDatagram
                    = checkReceivedPacket returning ?s0 50 (exEntrySingle False)"
    by (simp only: exOdd_packetOf hd0(3,4) B0 R0)
  have res0: "handleReceivedData returning ?r0 exOddDatagram
       = Returned (exReceiver [50 \<mapsto> exEntrySingle True] [(exListener, replicate 300 5)])"
    by (simp only: run0 exEntrySingle_check)
  have first: "20 \<le> length exOddDatagram
   \<and> parseReceivedPacketHeader exOddDatagram = Inr (header exOddPacket)
   \<and> packetLength (header exOddPacket) = 20
   \<and> length exOddDatagram - 20 = 300
   \<and> subIndex (header exOddPacket) = 0
   \<and> packetBuffer (exReceiver Map.empty []) (index (header exOddPacket)) = None
   \<and> handleReceivedData returning (exReceiver Map.empty []) exOddDatagram
       = checkReceivedPacket returning (exReceiver [50 \<mapsto> exEntrySingle False] []) 50
           (exEntrySingle False)
   \<and> totalDataBytes (exEntrySingle False) = 300
   \<and> handleReceivedData returning (exReceiver Map.empty []) exOddDatagram
       = Returned (exReceiver [50 \<mapsto> exEntrySingle True] [(exListener, replicate 300 5)])"
    using l0 exOdd_parse hd0(1,2) n0 b0 run0 t0 res0 by blast
  have second: "20 \<le> length exOddContDatagram
   \<and> parseReceivedPacketHeader exOddContDatagram = Inr (header exOddContPacket)
   \<and> packetLength (header exOddContPacket) = 20
   \<and> payloadLength (header exOddContPacket) = 0
   \<and> length exOddContDatagram - 20 = 100
   \<and> packetOf (header exOddContPacket) exOddContDatagram = exOddContPacket
   \<and> packetBuffer (exReceiver [50 \<mapsto> exEntry0] []) (index (header exOddContPacket)) = Some exEntry0
   \<and> entryCounter exEntry0 = counter (header exOddContPacket)
   \<and> packets exEntry0 \<noteq> []
   \<and> subIndex (header exOddContPacket) = subIndex (header (last (packets exEntry0))) + 1
   \<and> totalDataBytes exEntry0 = 200
   \<and> handleReceivedData returning (exReceiver [50 \<mapsto> exEntry0] []) exOddContDatagram
       = checkReceivedPacket returning (exReceiver [50 \<mapsto> exEntryOdd False] []) 50
           (exEntryOdd False)
   \<and> totalDataBytes (exEntryOdd False) = 300
   \<and> filter (\<lambda>l. listID l = 50) (handlers (exReceiver [50 \<mapsto> exEntryOdd False] []))
       = exListener # []
   \<and> byteLength (dataType exListener) = 300
   \<and> handleReceivedData returning (exReceiver [50 \<mapsto> exEntry0] []) exOddContDatagram
       = Returned (exReceiver [50 \<mapsto> exEntryOdd True] [(exListener, exRaw)])
   \<and> bufferActual (exReceiver [50 \<mapsto> exEntry0] [])
   \<and> bufferActual (exReceiver [50 \<mapsto> exEntryOdd True] [(exListener, exRaw)])"
    using l exOddCont_parse hd(1,2) n exOddCont_packetOf b e run t f res a a' by blast
  from first second show ?thesis by blast
qed

end
